theory Spec2Isabelle
  imports Main "HOL-Library.Word"
begin

section \<open>netdumpd: data model\<close>

text \<open>
  The embedding follows \<^verbatim>\<open>netdumpd.c\<close>. The daemon is single threaded; its state is
  the list of clients and a few globals. Everything the daemon asks of the operating
  system is an entry of a trace, in program order, together with the answer the daemon
  looked at. The answers come from an environment \<open>env\<close>: one function per library call,
  applied to the number of trace entries so far and to the call's arguments, so that two
  calls with the same arguments may be answered differently.
\<close>

type_synonym byte = "8 word"
type_synonym ptr = nat
type_synonym in_addr = "32 word"

datatype errno = ENOENT | EEXIST | EAGAIN | EINTR | EOTHER int

text \<open>\<^verbatim>\<open>#define\<close>s of netdumpd.c.\<close>

definition MAX_DUMPS :: nat where "MAX_DUMPS = 256"
definition CLIENT_TIMEOUT :: int where "CLIENT_TIMEOUT = 600"
definition CLIENT_TPASS :: int where "CLIENT_TPASS = 10"
definition VMCORE_BUFSZ :: nat where "VMCORE_BUFSZ = 128 * 1024"

text \<open>
  \<^verbatim>\<open>struct netdump_client\<close>. The list linkage \<^verbatim>\<open>iter\<close> is the position in \<open>g_clients\<close>
  below. \<open>infofile\<close> is the \<^verbatim>\<open>FILE *\<close>, named by the descriptor it was opened on, \<open>None\<close>
  for \<^verbatim>\<open>NULL\<close>. \<open>vmcorebufoff\<close> is a \<^verbatim>\<open>size_t\<close>, \<open>vmcoreoff\<close> an \<^verbatim>\<open>off_t\<close>; both are
  64 bits wide. Of the array \<^verbatim>\<open>vmcorebuf[VMCORE_BUFSZ]\<close> the list \<open>vmcorebuf\<close> holds the
  bytes below the end of the latest copy into it: no function reads the array at or
  beyond \<open>vmcorebufoff\<close>, so the stale bytes behind the latest copy are dropped. A copy
  that would run past \<open>VMCORE_BUFSZ\<close> is a fault of the model.
\<close>

record netdump_client =
  path :: string
  infofilename :: string
  corefilename :: string
  hostname :: string
  last_msg :: int
  ip :: in_addr
  infofile :: "int option"
  corefd :: int
  sock :: int
  any_data_rcvd :: bool
  vmcorebufoff :: "64 word"
  vmcoreoff :: "64 word"
  vmcorebuf :: "byte list"

text \<open>
  \<^verbatim>\<open>struct netdump_msg_hdr\<close> after \<^verbatim>\<open>ndtoh\<close>, and \<^verbatim>\<open>struct netdump_pkt\<close>. \<open>pdata\<close> holds
  the bytes of \<^verbatim>\<open>data[]\<close> that the datagram filled.
\<close>

record netdump_msg_hdr =
  mh_seqno :: "32 word"
  mh_type :: "32 word"
  mh_len :: "32 word"
  mh_offset :: "64 word"

record netdump_pkt =
  hdr :: netdump_msg_hdr
  pdata :: "byte list"

text \<open>What \<^verbatim>\<open>netdump_cap_herald\<close> hands back on success.\<close>

record herald =
  h_sd :: int
  h_saddr :: in_addr
  h_seqno :: "32 word"
  h_path :: string

datatype oflag = O_WRONLY | O_RDWR | O_CREAT | O_EXCL | O_CLOEXEC

text \<open>
  The trace. A call whose result the daemon inspects carries that result; a call whose
  result it discards (\<^verbatim>\<open>close\<close>, \<^verbatim>\<open>fclose\<close>, \<^verbatim>\<open>unlink\<close>, \<^verbatim>\<open>fsync\<close>, \<^verbatim>\<open>fprintf\<close>,
  \<^verbatim>\<open>fflush\<close>, \<^verbatim>\<open>free\<close>) carries none. \<open>EvPinfo\<close> is \<^verbatim>\<open>client_pinfo\<close>, a \<^verbatim>\<open>fprintf\<close>
  to the info file, with its format string (the arguments are left out). \<open>EvPwrite\<close>
  carries the descriptor, the bytes, the byte count, the offset and the result.
  \<open>EvOpenat\<close>, \<open>EvUnlinkat\<close> and \<open>EvSymlinkat\<close> are the calls to which the source passes
  \<^verbatim>\<open>g_dumpdir_fd\<close>; \<open>EvUnlink\<close> is \<^verbatim>\<open>unlink\<close>, which is passed the name alone.
  Calls of the log hook (\<^verbatim>\<open>LOGERR\<close>, \<^verbatim>\<open>LOGINFO\<close>, \<^verbatim>\<open>LOGWARN\<close>) only write to syslog
  or the terminal and are not traced.
\<close>

datatype event =
    EvCalloc "ptr option"
  | EvGetnameinfo in_addr bool int string
  | EvSetsockopt int bool
  | EvOpenat string "oflag list" "errno + nat"
  | EvFdopen int bool
  | EvClose int
  | EvFclose "int option"
  | EvUnlink string
  | EvKeventAdd int ptr bool
  | EvKeventDel int bool
  | EvFree ptr
  | EvPinfo "int option" string
  | EvFflush "int option"
  | EvHandler string in_addr string string string int
  | EvPwrite int "byte list" "64 word" "64 word" int
  | EvFsync int
  | EvUnlinkat string "errno option"
  | EvSymlinkat string string "errno option"
  | EvSend int "32 word" bool
  | EvTime int
  | EvHeraldCall "errno + herald"
  | EvRecv int "errno + (nat \<times> netdump_pkt)"

text \<open>
  The environment: the answers of the C library, the kernel and the casper services,
  and the sizes and constants that come from system headers and are no part of the
  repository (\<^verbatim>\<open>NETDUMP_DATASIZE\<close>, \<^verbatim>\<open>sizeof(struct netdump_msg_hdr)\<close>,
  \<^verbatim>\<open>sizeof(struct kerneldumpheader)\<close>, \<^verbatim>\<open>MAXPATHLEN\<close>).
\<close>

record env =
  NETDUMP_DATASIZE :: nat
  HDR_SIZE :: nat
  KDH_SIZE :: nat
  MAXPATHLEN :: nat
  e_calloc :: "nat \<Rightarrow> ptr option"
  e_getnameinfo :: "nat \<Rightarrow> in_addr \<Rightarrow> bool \<Rightarrow> int \<times> string"
  e_setsockopt :: "nat \<Rightarrow> int \<Rightarrow> bool"
  e_openat :: "nat \<Rightarrow> string \<Rightarrow> errno + nat"
  e_fdopen :: "nat \<Rightarrow> int \<Rightarrow> bool"
  e_kevent :: "nat \<Rightarrow> int \<Rightarrow> bool"
  e_handler :: "nat \<Rightarrow> string \<Rightarrow> in_addr \<Rightarrow> int"
  e_pwrite :: "nat \<Rightarrow> int \<Rightarrow> byte list \<Rightarrow> 64 word \<Rightarrow> int"
  e_unlinkat :: "nat \<Rightarrow> string \<Rightarrow> errno option"
  e_symlinkat :: "nat \<Rightarrow> string \<Rightarrow> string \<Rightarrow> errno option"
  e_send :: "nat \<Rightarrow> int \<Rightarrow> 32 word \<Rightarrow> bool"
  e_time :: "nat \<Rightarrow> int"
  e_herald :: "nat \<Rightarrow> errno + herald"
  e_recv :: "nat \<Rightarrow> int \<Rightarrow> errno + (nat \<times> netdump_pkt)"

text \<open>
  A fault is behaviour the C standard leaves undefined: the model stops there.
  \<open>UseAfterFree p\<close> is an access through a client pointer that is not (or no longer)
  allocated; \<open>BufferOverflow p\<close> a copy past the end of \<^verbatim>\<open>vmcorebuf\<close>.
\<close>

datatype fault = UseAfterFree ptr | BufferOverflow ptr

text \<open>
  The globals. \<open>g_clients\<close> is the client list, head first, each client with its
  address; a client is allocated exactly while it is on the list (\<^verbatim>\<open>alloc_client\<close>
  frees a client it does not insert, \<^verbatim>\<open>free_client\<close> removes and frees).
  \<open>g_caphandler\<close> tells whether the handler channel is open (non-\<^verbatim>\<open>NULL\<close>);
  \<open>g_sock\<close> is the listening socket.
\<close>

record world =
  g_clients :: "(ptr \<times> netdump_client) list"
  g_now :: int
  g_last_timeout_check :: int
  g_caphandler :: bool
  g_sock :: int
  trace :: "event list"
  fault :: "fault option"

definition pos :: "world \<Rightarrow> nat" where
  "pos w = length (trace w)"

definition emit :: "event \<Rightarrow> world \<Rightarrow> world" where
  "emit e w = w\<lparr>trace := trace w @ [e]\<rparr>"

definition client_at :: "world \<Rightarrow> ptr \<Rightarrow> netdump_client option" where
  "client_at w p = map_of (g_clients w) p"

definition set_client :: "ptr \<Rightarrow> netdump_client \<Rightarrow> world \<Rightarrow> world" where
  "set_client p c w =
     w\<lparr>g_clients := map (\<lambda>(q, d). if q = p then (q, c) else (q, d)) (g_clients w)\<rparr>"

definition raise_fault :: "fault \<Rightarrow> world \<Rightarrow> world" where
  "raise_fault f w = w\<lparr>fault := Some f\<rparr>"

section \<open>Leaving a session\<close>

text \<open>\<^verbatim>\<open>free_client\<close>.\<close>

definition free_client :: "env \<Rightarrow> ptr \<Rightarrow> world \<Rightarrow> world" where
  "free_client E p w =
     (case client_at w p of
        None \<Rightarrow> raise_fault (UseAfterFree p) w
      | Some c \<Rightarrow>
          let ok = e_kevent E (pos w) (sock c);
              w1 = emit (EvKeventDel (sock c) ok) w;
              w2 = w1\<lparr>g_clients := filter (\<lambda>(q, d). q \<noteq> p) (g_clients w1)\<rparr>;
              w3 = emit (EvFclose (infofile c)) w2;
              w4 = emit (EvClose (corefd c)) w3;
              w5 = emit (EvClose (sock c)) w4
          in emit (EvFree p) w5)"

text \<open>\<^verbatim>\<open>exec_handler\<close>: nothing happens unless the handler channel is open.\<close>

definition exec_handler :: "env \<Rightarrow> netdump_client \<Rightarrow> string \<Rightarrow> world \<Rightarrow> world" where
  "exec_handler E c reason w =
     (if \<not> g_caphandler w then w
      else
        let err = e_handler E (pos w) reason (ip c)
        in emit (EvHandler reason (ip c) (hostname c) (infofilename c)
                   (corefilename c) err) w)"

text \<open>\<^verbatim>\<open>handle_timeout\<close>.\<close>

definition handle_timeout :: "env \<Rightarrow> ptr \<Rightarrow> world \<Rightarrow> world" where
  "handle_timeout E p w =
     (case client_at w p of
        None \<Rightarrow> raise_fault (UseAfterFree p) w
      | Some c \<Rightarrow>
          let w1 = emit (EvPinfo (infofile c) ''Dump incomplete: client timed out\<newline>'') w;
              w2 = exec_handler E c ''timeout'' w1
          in free_client E p w2)"

text \<open>\<^verbatim>\<open>send_ack\<close>.\<close>

definition send_ack :: "env \<Rightarrow> netdump_client \<Rightarrow> 32 word \<Rightarrow> world \<Rightarrow> world" where
  "send_ack E c seqno w =
     (let ok = e_send E (pos w) (sock c) seqno
      in emit (EvSend (sock c) seqno ok) w)"

section \<open>The write coalescer\<close>

text \<open>
  \<^verbatim>\<open>vmcore_flush\<close>: one \<^verbatim>\<open>pwrite\<close> of the \<open>vmcorebufoff\<close> buffered bytes at \<open>vmcoreoff\<close>.
  The result is compared with \<^verbatim>\<open>(ssize_t)client->vmcorebufoff\<close>.
\<close>

definition vmcore_flush :: "env \<Rightarrow> ptr \<Rightarrow> world \<Rightarrow> int \<times> world" where
  "vmcore_flush E p w =
     (case client_at w p of
        None \<Rightarrow> (1, raise_fault (UseAfterFree p) w)
      | Some c \<Rightarrow>
          let bytes = take (unat (vmcorebufoff c)) (vmcorebuf c);
              r = e_pwrite E (pos w) (corefd c) bytes (vmcoreoff c);
              w1 = emit (EvPwrite (corefd c) bytes (vmcorebufoff c) (vmcoreoff c) r) w
          in if r \<noteq> sint (vmcorebufoff c) then
               let w2 = emit (EvPinfo (infofile c)
                          ''Dump unsuccessful: write error @ offset %08jx: %s\<newline>'') w1;
                   w3 = exec_handler E c ''error'' w2
               in (1, free_client E p w3)
             else (0, set_client p (c\<lparr>vmcorebufoff := 0\<rparr>) w1))"

text \<open>
  The test of \<^verbatim>\<open>handle_vmcore\<close> that decides on a flush, in \<^verbatim>\<open>size_t\<close> arithmetic.
\<close>

definition need_flush :: "env \<Rightarrow> netdump_client \<Rightarrow> netdump_pkt \<Rightarrow> bool" where
  "need_flush E c pkt \<longleftrightarrow>
     vmcorebufoff c + of_nat (NETDUMP_DATASIZE E) > of_nat VMCORE_BUFSZ \<or>
     (vmcorebufoff c > 0 \<and> vmcoreoff c + vmcorebufoff c \<noteq> mh_offset (hdr pkt))"

text \<open>
  The \<^verbatim>\<open>memcpy\<close> and the two assignments that follow it in \<^verbatim>\<open>handle_vmcore\<close>:
  \<open>None\<close> when the copy of \<open>mh_len\<close> bytes at \<open>vmcorebufoff\<close> would leave the array.
\<close>

definition stage :: "netdump_client \<Rightarrow> netdump_pkt \<Rightarrow> netdump_client option" where
  "stage c pkt =
     (if unat (vmcorebufoff c) + unat (mh_len (hdr pkt)) > VMCORE_BUFSZ then None
      else
        let c1 = c\<lparr>vmcorebuf := take (unat (vmcorebufoff c)) (vmcorebuf c) @
                                   take (unat (mh_len (hdr pkt))) (pdata pkt)\<rparr>;
            c2 = (if vmcorebufoff c1 = 0 then c1\<lparr>vmcoreoff := mh_offset (hdr pkt)\<rparr> else c1)
        in Some (c2\<lparr>vmcorebufoff := vmcorebufoff c2 + ucast (mh_len (hdr pkt))\<rparr>))"

text \<open>
  \<^verbatim>\<open>handle_vmcore\<close>. \<open>vmcore_make_room\<close> is its first half, the flag and the flush under
  \<^verbatim>\<open>if\<close>; its first component is not 0 when the flush failed and \<^verbatim>\<open>handle_vmcore\<close>
  returns at once.
\<close>

definition vmcore_make_room :: "env \<Rightarrow> ptr \<Rightarrow> netdump_pkt \<Rightarrow> world \<Rightarrow> int \<times> world" where
  "vmcore_make_room E p pkt w =
     (case client_at w p of
        None \<Rightarrow> (1, raise_fault (UseAfterFree p) w)
      | Some c0 \<Rightarrow>
          let c = c0\<lparr>any_data_rcvd := True\<rparr>;
              w1 = set_client p c w
          in if need_flush E c pkt then vmcore_flush E p w1 else (0, w1))"

definition handle_vmcore :: "env \<Rightarrow> ptr \<Rightarrow> netdump_pkt \<Rightarrow> world \<Rightarrow> world" where
  "handle_vmcore E p pkt w =
     (case vmcore_make_room E p pkt w of
        (rc, w2) \<Rightarrow>
          if rc \<noteq> 0 then w2
          else
            (case client_at w2 p of
               None \<Rightarrow> raise_fault (UseAfterFree p) w2
             | Some c2 \<Rightarrow>
                 (case stage c2 pkt of
                    None \<Rightarrow> raise_fault (BufferOverflow p) w2
                  | Some c3 \<Rightarrow> send_ack E c3 (mh_seqno (hdr pkt)) (set_client p c3 w2))))"

section \<open>The session handlers\<close>

text \<open>
  Modelled from the spec: the message type codes of \<^verbatim>\<open><netinet/netdump/netdump.h>\<close>,
  a system header that is no part of the repository. The spec gives them as
  ``Types: KDH=1, FINISHED=2, VMCORE=3''.
\<close>

definition NETDUMP_KDH :: "32 word" where "NETDUMP_KDH = 1"
definition NETDUMP_FINISHED :: "32 word" where "NETDUMP_FINISHED = 2"
definition NETDUMP_VMCORE :: "32 word" where "NETDUMP_VMCORE = 3"

text \<open>
  \<^verbatim>\<open>snprintf(buf, MAXPATHLEN, ...)\<close> keeps at most \<open>MAXPATHLEN - 1\<close> characters of the
  formatted text; the daemon does not look at its result.
\<close>

definition snprintf :: "env \<Rightarrow> string \<Rightarrow> string" where
  "snprintf E s = take (MAXPATHLEN E - 1) s"

text \<open>
  \<^verbatim>\<open>handle_kdh\<close>. The nine lines written to the info file are given by their format
  strings; the fields of the kernel dump header they print are not modelled.
\<close>

definition kdh_lines :: "string list" where
  "kdh_lines =
     [''  Architecture: %s\<newline>'', ''  Architecture version: %d\<newline>'',
      ''  Dump length: %lldB (%lld MB)\<newline>'', ''  blocksize: %d\<newline>'',
      ''  Dumptime: %s'', ''  Hostname: %s\<newline>'', ''  Versionstring: %s'',
      ''  Panicstring: %s\<newline>'', ''  Header parity check: %s\<newline>'']"

definition handle_kdh :: "env \<Rightarrow> ptr \<Rightarrow> netdump_pkt \<Rightarrow> world \<Rightarrow> world" where
  "handle_kdh E p pkt w =
     (case client_at w p of
        None \<Rightarrow> raise_fault (UseAfterFree p) w
      | Some c0 \<Rightarrow>
          let c = c0\<lparr>any_data_rcvd := True\<rparr>;
              w1 = set_client p c w
          in if unat (mh_len (hdr pkt)) < KDH_SIZE E then
               emit (EvFflush (infofile c))
                 (emit (EvPinfo (infofile c) ''Bad KDH: packet too small\<newline>'') w1)
             else
               let w2 = foldl (\<lambda>v l. emit (EvPinfo (infofile c) l) v) w1 kdh_lines;
                   w3 = emit (EvFflush (infofile c)) w2
               in send_ack E c (mh_seqno (hdr pkt)) w3)"

text \<open>
  \<^verbatim>\<open>handle_finish\<close>. \<open>replace_last\<close> is one \<^verbatim>\<open>unlinkat\<close>/\<^verbatim>\<open>symlinkat\<close> pair of it: True
  when the pair went through, False when the function returns early. The \<^verbatim>\<open>unlinkat\<close>
  may fail with \<^verbatim>\<open>ENOENT\<close>.
\<close>

definition replace_last :: "env \<Rightarrow> string \<Rightarrow> string \<Rightarrow> world \<Rightarrow> bool \<times> world" where
  "replace_last E target symlinkpath w =
     (let r1 = e_unlinkat E (pos w) symlinkpath;
          w1 = emit (EvUnlinkat symlinkpath r1) w
      in if r1 \<noteq> None \<and> r1 \<noteq> Some ENOENT then (False, w1)
         else
           let r2 = e_symlinkat E (pos w1) target symlinkpath;
               w2 = emit (EvSymlinkat target symlinkpath r2) w1
           in (r2 = None, w2))"

definition handle_finish :: "env \<Rightarrow> ptr \<Rightarrow> netdump_pkt \<Rightarrow> world \<Rightarrow> world" where
  "handle_finish E p pkt w =
     (case vmcore_flush E p w of
        (rc, w1) \<Rightarrow>
          if rc \<noteq> 0 then w1
          else
            (case client_at w1 p of
               None \<Rightarrow> raise_fault (UseAfterFree p) w1
             | Some c \<Rightarrow>
                 let w2 = emit (EvFsync (corefd c)) w1;
                     (ok1, w3) = replace_last E (corefilename c)
                        (snprintf E (path c @ ''/vmcore.'' @ hostname c @ ''.last'')) w2
                 in if \<not> ok1 then w3
                    else
                      let (ok2, w4) = replace_last E (infofilename c)
                            (snprintf E (path c @ ''/info.'' @ hostname c @ ''.last'')) w3
                      in if \<not> ok2 then w4
                         else
                           let w5 = emit (EvPinfo (infofile c) ''Dump complete\<newline>'') w4;
                               w6 = send_ack E c (mh_seqno (hdr pkt)) w5;
                               w7 = exec_handler E c ''success'' w6
                           in free_client E p w7))"

text \<open>
  \<^verbatim>\<open>client_event\<close>: a read event on a client socket. \<^verbatim>\<open>recv\<close> answers with an error or
  with the length of the datagram and the packet; the two size checks come before the
  dispatch on the message type.
\<close>

definition client_event :: "env \<Rightarrow> ptr \<Rightarrow> world \<Rightarrow> world" where
  "client_event E p w =
     (case client_at w p of
        None \<Rightarrow> raise_fault (UseAfterFree p) w
      | Some c \<Rightarrow>
          let r = e_recv E (pos w) (sock c);
              w1 = emit (EvRecv (sock c) r) w
          in (case r of
                Inl e \<Rightarrow> (if e \<noteq> EAGAIN \<and> e \<noteq> EINTR then handle_timeout E p w1 else w1)
              | Inr (len, pkt) \<Rightarrow>
                  (if len < HDR_SIZE E then w1
                   else if len - HDR_SIZE E \<noteq> unat (mh_len (hdr pkt)) then w1
                   else
                     let t = e_time E (pos w1);
                         w2 = set_client p (c\<lparr>last_msg := t\<rparr>) (emit (EvTime t) w1)
                     in if mh_type (hdr pkt) = NETDUMP_KDH then handle_kdh E p pkt w2
                        else if mh_type (hdr pkt) = NETDUMP_VMCORE
                        then handle_vmcore E p pkt w2
                        else if mh_type (hdr pkt) = NETDUMP_FINISHED
                        then handle_finish E p pkt w2
                        else w2)))"

section \<open>Creating a session\<close>

text \<open>The decimal digits that \<^verbatim>\<open>%d\<close> prints for a number that is not negative.\<close>

fun dec :: "nat \<Rightarrow> string" where
  "dec n = (if n < 10 then [''0123456789'' ! n]
            else dec (n div 10) @ [''0123456789'' ! (n mod 10)])"

declare dec.simps [simp del]

text \<open>The two names that an iteration of the loop of \<^verbatim>\<open>alloc_client\<close> formats.\<close>

definition info_name :: "env \<Rightarrow> netdump_client \<Rightarrow> nat \<Rightarrow> string" where
  "info_name E c i = snprintf E (path c @ ''/info.'' @ hostname c @ ''.'' @ dec i)"

definition core_name :: "env \<Rightarrow> netdump_client \<Rightarrow> nat \<Rightarrow> string" where
  "core_name E c i = snprintf E (path c @ ''/vmcore.'' @ hostname c @ ''.'' @ dec i)"

definition info_flags :: "oflag list" where
  "info_flags = [O_WRONLY, O_CREAT, O_EXCL, O_CLOEXEC]"

definition core_flags :: "oflag list" where
  "core_flags = [O_RDWR, O_CREAT, O_EXCL, O_CLOEXEC]"

text \<open>
  The loop \<^verbatim>\<open>for (i = 0; i < MAX_DUMPS; i++)\<close> of \<^verbatim>\<open>alloc_client\<close>, from index \<open>i\<close> on.
  \<^verbatim>\<open>continue\<close> is the recursive call, \<^verbatim>\<open>break\<close> the return.
\<close>

function alloc_files :: "env \<Rightarrow> netdump_client \<Rightarrow> nat \<Rightarrow> world \<Rightarrow> netdump_client \<times> world" where
  "alloc_files E c i w =
     (if i < MAX_DUMPS then
        let c1 = c\<lparr>infofilename := info_name E c i, corefilename := core_name E c i\<rparr>;
            r = e_openat E (pos w) (infofilename c1);
            w1 = emit (EvOpenat (infofilename c1) info_flags r) w
        in (case r of
              Inl e \<Rightarrow> alloc_files E c1 (i + 1) w1
            | Inr fd \<Rightarrow>
                let ok = e_fdopen E (pos w1) (int fd);
                    w2 = emit (EvFdopen (int fd) ok) w1
                in if \<not> ok then
                     alloc_files E (c1\<lparr>infofile := None\<rparr>) (i + 1)
                       (emit (EvUnlink (infofilename c1)) (emit (EvClose (int fd)) w2))
                   else
                     let c2 = c1\<lparr>infofile := Some (int fd)\<rparr>;
                         r2 = e_openat E (pos w2) (corefilename c2);
                         w3 = emit (EvOpenat (corefilename c2) core_flags r2) w2
                     in (case r2 of
                           Inl e \<Rightarrow>
                             alloc_files E (c2\<lparr>infofile := None\<rparr>) (i + 1)
                               (emit (EvUnlink (infofilename c2))
                                  (emit (EvFclose (infofile c2)) w3))
                         | Inr fd2 \<Rightarrow> (c2\<lparr>corefd := int fd2\<rparr>, w3)))
      else (c, w))"
  by pat_completeness auto
termination
  by (relation "measure (\<lambda>(E, c, i, w). MAX_DUMPS - i)") auto

declare alloc_files.simps [simp del]

text \<open>The label \<^verbatim>\<open>error_out\<close> of \<^verbatim>\<open>alloc_client\<close>, for a client that was allocated.\<close>

definition error_out :: "ptr \<Rightarrow> netdump_client \<Rightarrow> world \<Rightarrow> world" where
  "error_out p c w =
     (let w1 = (if infofile c \<noteq> None then emit (EvFclose (infofile c)) w else w);
          w2 = (if corefd c \<noteq> - 1 then emit (EvClose (corefd c)) w1 else w1);
          w3 = (if sock c \<noteq> - 1 then emit (EvClose (sock c)) w2 else w2)
      in emit (EvFree p) w3)"

text \<open>
  \<^verbatim>\<open>alloc_client\<close>, from the files on: the loop, the test behind it, the registration
  with the kqueue and the insertion at the head of the list.
\<close>

definition alloc_finish :: "env \<Rightarrow> ptr \<Rightarrow> netdump_client \<Rightarrow> world \<Rightarrow> ptr option \<times> world" where
  "alloc_finish E p c w =
     (case alloc_files E c 0 w of
        (c1, w1) \<Rightarrow>
          if infofile c1 = None \<or> corefd c1 = - 1 then (None, error_out p c1 w1)
          else
            let ok = e_kevent E (pos w1) (sock c1);
                w2 = emit (EvKeventAdd (sock c1) p ok) w1
            in if \<not> ok then (None, error_out p c1 w2)
               else (Some p, w2\<lparr>g_clients := (p, c1) # g_clients w2\<rparr>))"

text \<open>
  The two calls of \<^verbatim>\<open>cap_getnameinfo\<close> in \<^verbatim>\<open>alloc_client\<close>: the error code and the host
  name they leave. A name found with \<^verbatim>\<open>NI_NAMEREQD\<close> is cut at its first dot; otherwise
  the second lookup gives the numeric form.
\<close>

definition lookup_hostname :: "env \<Rightarrow> in_addr \<Rightarrow> world \<Rightarrow> int \<times> string \<times> world" where
  "lookup_hostname E saddr w =
     (let (err, name) = e_getnameinfo E (pos w) saddr True;
          w1 = emit (EvGetnameinfo saddr True err name) w
      in if err \<noteq> 0 then
           (let (err2, name2) = e_getnameinfo E (pos w1) saddr False
            in (err2, name2, emit (EvGetnameinfo saddr False err2 name2) w1))
         else (0, takeWhile (\<lambda>ch. ch \<noteq> CHR ''.'') name, w1))"

text \<open>\<^verbatim>\<open>alloc_client\<close>. \<^verbatim>\<open>calloc\<close> zeroes the client.\<close>

definition alloc_client :: "env \<Rightarrow> int \<Rightarrow> in_addr \<Rightarrow> string \<Rightarrow> world \<Rightarrow> ptr option \<times> world" where
  "alloc_client E sd saddr pth w =
     (let r = e_calloc E (pos w);
          w1 = emit (EvCalloc r) w
      in (case r of
            None \<Rightarrow> (None, w1)
          | Some p \<Rightarrow>
              let c = \<lparr>path = [], infofilename = [], corefilename = [], hostname = [],
                       last_msg = g_now w1, ip = saddr, infofile = None, corefd = - 1,
                       sock = sd, any_data_rcvd = False, vmcorebufoff = 0, vmcoreoff = 0,
                       vmcorebuf = []\<rparr>
              in (case lookup_hostname E saddr w1 of
                    (err, name, w2) \<Rightarrow>
                      if err \<noteq> 0 then (None, error_out p c w2)
                      else
                        let c1 = c\<lparr>hostname := name\<rparr>;
                            ok = e_setsockopt E (pos w2) (sock c1);
                            w3 = emit (EvSetsockopt (sock c1) ok) w2;
                            c2 = c1\<lparr>path := take (MAXPATHLEN E - 1) pth\<rparr>
                        in alloc_finish E p c2 w3)))"

section \<open>The listener\<close>

text \<open>
  The end of \<^verbatim>\<open>server_event\<close>, behind the \<^verbatim>\<open>if\<close>: a line to the info file of \<^verbatim>\<open>client\<close>
  and the acknowledgement of the herald, both through the pointer \<^verbatim>\<open>client\<close>.
\<close>

definition announce :: "env \<Rightarrow> ptr \<Rightarrow> 32 word \<Rightarrow> world \<Rightarrow> world" where
  "announce E p seqno w =
     (case client_at w p of
        None \<Rightarrow> raise_fault (UseAfterFree p) w
      | Some c \<Rightarrow> send_ack E c seqno (emit (EvPinfo (infofile c) ''Dump from %s [%s]\<newline>'') w))"

text \<open>
  \<^verbatim>\<open>server_event\<close>: a read event on the listening socket. The function returns 0 on
  every path, so only the state is returned here. \<^verbatim>\<open>LIST_FOREACH\<close> with \<^verbatim>\<open>break\<close> is
  \<open>find\<close>.
\<close>

definition server_event :: "env \<Rightarrow> world \<Rightarrow> world" where
  "server_event E w =
     (let r = e_herald E (pos w);
          w1 = emit (EvHeraldCall r) w
      in (case r of
            Inl e \<Rightarrow> w1
          | Inr h \<Rightarrow>
              (case find (\<lambda>(q, c). ip c = h_saddr h) (g_clients w1) of
                 None \<Rightarrow>
                   (case alloc_client E (h_sd h) (h_saddr h) (h_path h) w1 of
                      (None, w2) \<Rightarrow> w2
                    | (Some p, w2) \<Rightarrow> announce E p (h_seqno h) w2)
               | Some (p, c) \<Rightarrow>
                   if \<not> any_data_rcvd c then send_ack E c (h_seqno h) w1
                   else announce E p (h_seqno h) (handle_timeout E p w1))))"

section \<open>Time-outs and the event loop\<close>

text \<open>
  \<^verbatim>\<open>time_t\<close> is a signed integer of 64 bits. Time stamps are kept as \<open>int\<close>, and
  \<open>time_t x\<close> is the value that a \<^verbatim>\<open>time_t\<close> holds for the sum or difference \<open>x\<close> of two of
  them: it wraps around at \<open>2 ^ 63\<close>, which is what the compiled arithmetic does (in C
  the overflow is undefined).
\<close>

definition time_t :: "int \<Rightarrow> int" where
  "time_t x = (x + 2 ^ 63) mod 2 ^ 64 - 2 ^ 63"

text \<open>
  \<^verbatim>\<open>timeout_clients\<close>. \<open>sweep\<close> is the \<^verbatim>\<open>LIST_FOREACH_SAFE\<close> over the clients that are on
  the list when the sweep starts.
\<close>

fun sweep :: "env \<Rightarrow> ptr list \<Rightarrow> world \<Rightarrow> world" where
  "sweep E [] w = w"
| "sweep E (p # ps) w =
     (case client_at w p of
        None \<Rightarrow> raise_fault (UseAfterFree p) w
      | Some c \<Rightarrow>
          sweep E ps (if time_t (last_msg c + CLIENT_TIMEOUT) < g_now w
                      then handle_timeout E p w else w))"

definition timeout_clients :: "env \<Rightarrow> world \<Rightarrow> world" where
  "timeout_clients E w =
     (if time_t (g_now w - g_last_timeout_check w) < CLIENT_TPASS then w
      else sweep E (map fst (g_clients w)) (w\<lparr>g_last_timeout_check := g_now w\<rparr>))"

text \<open>
  What \<^verbatim>\<open>kevent\<close> reports: a signal, a read event with its \<^verbatim>\<open>ident\<close> and \<^verbatim>\<open>udata\<close>, or an
  event with another filter.
\<close>

datatype kev = KSignal | KRead int ptr | KOther

text \<open>
  The inner loop of \<^verbatim>\<open>eventloop\<close> over the events of one wake. The first component is
  True when a signal was seen (\<^verbatim>\<open>goto out\<close>). An event with another filter ends the loop
  (\<^verbatim>\<open>break\<close>). After a fault nothing more is done.
\<close>

fun process_events :: "env \<Rightarrow> kev list \<Rightarrow> world \<Rightarrow> bool \<times> world" where
  "process_events E [] w = (False, w)"
| "process_events E (KSignal # evs) w = (True, w)"
| "process_events E (KRead ident udata # evs) w =
     (let w1 = (if ident = g_sock w then server_event E w else client_event E udata w)
      in if fault w1 \<noteq> None then (False, w1) else process_events E evs w1)"
| "process_events E (KOther # evs) w = (False, w)"

text \<open>
  One turn of the \<^verbatim>\<open>for (;;)\<close> of \<^verbatim>\<open>eventloop\<close>, for the answer of \<^verbatim>\<open>kevent\<close>: an error, or
  the events. \<open>Again\<close> goes on with the loop, \<open>Return\<close> leaves \<^verbatim>\<open>eventloop\<close> with a value,
  \<open>Shutdown\<close> is the jump to \<^verbatim>\<open>out\<close>.
\<close>

datatype outcome = Again world | Return int world | Shutdown world

definition wake :: "env \<Rightarrow> errno + kev list \<Rightarrow> world \<Rightarrow> outcome" where
  "wake E kres w =
     (case kres of
        Inl e \<Rightarrow> if e = EINTR then Again w else Return 1 w
      | Inr evs \<Rightarrow>
          let t = e_time E (pos w);
              w1 = (emit (EvTime t) w)\<lparr>g_now := t\<rparr>
          in (case process_events E evs w1 of
                (True, w2) \<Rightarrow> Shutdown w2
              | (False, w2) \<Rightarrow> if fault w2 \<noteq> None then Again w2 else Again (timeout_clients E w2)))"

section \<open>Notions used in the statements\<close>

text \<open>The events that a step from \<open>w\<close> to \<open>w'\<close> appended to the trace.\<close>

definition new_events :: "world \<Rightarrow> world \<Rightarrow> event list" where
  "new_events w w' = drop (length (trace w)) (trace w')"

text \<open>The coalescer invariant: no client's fill exceeds the capacity of its buffer.\<close>

definition fill_inv :: "world \<Rightarrow> bool" where
  "fill_inv w \<longleftrightarrow> (\<forall>(q, c) \<in> set (g_clients w). unat (vmcorebufoff c) \<le> VMCORE_BUFSZ)"

text \<open>The events of a call of \<open>exec_handler\<close> at trace position \<open>n\<close>.\<close>

definition handler_events :: "env \<Rightarrow> bool \<Rightarrow> netdump_client \<Rightarrow> string \<Rightarrow> nat \<Rightarrow> event list" where
  "handler_events E g c reason n =
     (if g then [EvHandler reason (ip c) (hostname c) (infofilename c) (corefilename c)
                   (e_handler E n reason (ip c))]
      else [])"

text \<open>The events of \<open>free_client\<close> at trace position \<open>n\<close>.\<close>

definition free_events :: "env \<Rightarrow> ptr \<Rightarrow> netdump_client \<Rightarrow> nat \<Rightarrow> event list" where
  "free_events E p c n =
     [EvKeventDel (sock c) (e_kevent E n (sock c)), EvFclose (infofile c),
      EvClose (corefd c), EvClose (sock c), EvFree p]"

text \<open>The events of \<open>handle_timeout\<close> at trace position \<open>n\<close>: the time-out path.\<close>

definition timeout_events :: "env \<Rightarrow> bool \<Rightarrow> ptr \<Rightarrow> netdump_client \<Rightarrow> nat \<Rightarrow> event list" where
  "timeout_events E g p c n =
     EvPinfo (infofile c) ''Dump incomplete: client timed out\<newline>'' #
     handler_events E g c ''timeout'' (Suc n) @
     free_events E p c (Suc n + length (handler_events E g c ''timeout'' (Suc n)))"

text \<open>The \<^verbatim>\<open>pwrite\<close> of \<open>vmcore_flush\<close> for client \<open>c\<close>, with result \<open>r\<close>.\<close>

definition flush_write :: "netdump_client \<Rightarrow> int \<Rightarrow> event" where
  "flush_write c r =
     EvPwrite (corefd c) (take (unat (vmcorebufoff c)) (vmcorebuf c)) (vmcorebufoff c)
       (vmcoreoff c) r"

text \<open>The answer that the environment gives to that \<^verbatim>\<open>pwrite\<close> at trace position \<open>n\<close>.\<close>

definition flush_result :: "env \<Rightarrow> netdump_client \<Rightarrow> nat \<Rightarrow> int" where
  "flush_result E c n =
     e_pwrite E n (corefd c) (take (unat (vmcorebufoff c)) (vmcorebuf c)) (vmcoreoff c)"

text \<open>What follows a failed \<^verbatim>\<open>pwrite\<close> in \<open>vmcore_flush\<close>, from trace position \<open>n\<close> on.\<close>

definition flush_failure_events ::
  "env \<Rightarrow> bool \<Rightarrow> ptr \<Rightarrow> netdump_client \<Rightarrow> nat \<Rightarrow> event list" where
  "flush_failure_events E g p c n =
     EvPinfo (infofile c) ''Dump unsuccessful: write error @ offset %08jx: %s\<newline>'' #
     handler_events E g c ''error'' (Suc n) @
     free_events E p c (Suc n + length (handler_events E g c ''error'' (Suc n)))"

fun is_pwrite :: "event \<Rightarrow> bool" where
  "is_pwrite (EvPwrite fd bs n off r) = True"
| "is_pwrite e = False"

section \<open>Example data\<close>

text \<open>
  An environment in which every call succeeds: the sizes of a FreeBSD system with the
  data unit of 1456 bytes, a donor that resolves to \<open>donor.example.org\<close>, no \<^verbatim>\<open>.last\<close>
  link in place, nothing to receive.
\<close>

definition ex_env :: env where
  "ex_env =
     \<lparr>NETDUMP_DATASIZE = 1456, HDR_SIZE = 24, KDH_SIZE = 512, MAXPATHLEN = 1024,
      e_calloc = (\<lambda>n. Some n),
      e_getnameinfo = (\<lambda>n a b. (0, ''donor.example.org'')),
      e_setsockopt = (\<lambda>n s. True),
      e_openat = (\<lambda>n s. Inr n),
      e_fdopen = (\<lambda>n fd. True),
      e_kevent = (\<lambda>n s. True),
      e_handler = (\<lambda>n r a. 0),
      e_pwrite = (\<lambda>n fd bs off. int (length bs)),
      e_unlinkat = (\<lambda>n s. Some ENOENT),
      e_symlinkat = (\<lambda>n t l. None),
      e_send = (\<lambda>n s q. True),
      e_time = (\<lambda>n. 1000),
      e_herald = (\<lambda>n. Inl EAGAIN),
      e_recv = (\<lambda>n s. Inl EAGAIN)\<rparr>"

text \<open>The session of donor 10.0.0.2 right after its herald.\<close>

definition ex_client :: netdump_client where
  "ex_client =
     \<lparr>path = ''ok'', infofilename = ''ok/info.donor.0'', corefilename = ''ok/vmcore.donor.0'',
      hostname = ''donor'', last_msg = 0, ip = 0x0A000002, infofile = Some 5, corefd = 6,
      sock = 7, any_data_rcvd = False, vmcorebufoff = 0, vmcoreoff = 0, vmcorebuf = []\<rparr>"

definition ex_world :: "(ptr \<times> netdump_client) list \<Rightarrow> world" where
  "ex_world cs =
     \<lparr>g_clients = cs, g_now = 0, g_last_timeout_check = 0, g_caphandler = True, g_sock = 3,
      trace = [], fault = None\<rparr>"

text \<open>
  A session that has buffered 90 full data units from offset 0 on, and the packet that
  continues them with 32 more bytes.
\<close>

definition ex_full_client :: netdump_client where
  "ex_full_client =
     ex_client\<lparr>any_data_rcvd := True, vmcorebufoff := 131040, vmcorebuf := replicate 131040 0\<rparr>"

definition ex_next_pkt :: netdump_pkt where
  "ex_next_pkt =
     \<lparr>hdr = \<lparr>mh_seqno = 91, mh_type = NETDUMP_VMCORE, mh_len = 32, mh_offset = 131040\<rparr>,
      pdata = replicate 32 1\<rparr>"

text \<open>
  The events of \<open>replace_last\<close> at trace position \<open>n\<close>, and whether the pair of calls
  went through.
\<close>

definition link_events :: "env \<Rightarrow> string \<Rightarrow> string \<Rightarrow> nat \<Rightarrow> event list" where
  "link_events E target l n =
     (if e_unlinkat E n l \<noteq> None \<and> e_unlinkat E n l \<noteq> Some ENOENT
      then [EvUnlinkat l (e_unlinkat E n l)]
      else [EvUnlinkat l (e_unlinkat E n l),
            EvSymlinkat target l (e_symlinkat E (Suc n) target l)])"

definition link_ok :: "env \<Rightarrow> string \<Rightarrow> string \<Rightarrow> nat \<Rightarrow> bool" where
  "link_ok E target l n \<longleftrightarrow>
     (e_unlinkat E n l = None \<or> e_unlinkat E n l = Some ENOENT) \<and>
     e_symlinkat E (Suc n) target l = None"

text \<open>
  A call that makes \<open>handle_finish\<close> return early: an \<^verbatim>\<open>unlinkat\<close> that failed with an
  error other than \<^verbatim>\<open>ENOENT\<close>, or a \<^verbatim>\<open>symlinkat\<close> that failed.
\<close>

fun link_failure :: "event \<Rightarrow> bool" where
  "link_failure (EvUnlinkat l r) = (r \<noteq> None \<and> r \<noteq> Some ENOENT)"
| "link_failure (EvSymlinkat t l r) = (r \<noteq> None)"
| "link_failure e = False"

fun is_send :: "event \<Rightarrow> bool" where
  "is_send (EvSend s n ok) = True"
| "is_send e = False"

fun is_handler :: "event \<Rightarrow> bool" where
  "is_handler (EvHandler r a h i c e) = True"
| "is_handler e = False"

text \<open>The two names that \<open>handle_finish\<close> links.\<close>

definition vmcore_last :: "env \<Rightarrow> netdump_client \<Rightarrow> string" where
  "vmcore_last E c = snprintf E (path c @ ''/vmcore.'' @ hostname c @ ''.last'')"

definition info_last :: "env \<Rightarrow> netdump_client \<Rightarrow> string" where
  "info_last E c = snprintf E (path c @ ''/info.'' @ hostname c @ ''.last'')"

text \<open>
  The events of \<open>handle_finish\<close> behind its \<^verbatim>\<open>fsync\<close>, from trace position \<open>n\<close> on, for the
  client \<open>c\<close> (already flushed), and whether both links were replaced.
\<close>

definition finish_links_ok :: "env \<Rightarrow> netdump_client \<Rightarrow> nat \<Rightarrow> bool" where
  "finish_links_ok E c n \<longleftrightarrow>
     link_ok E (corefilename c) (vmcore_last E c) n \<and>
     link_ok E (infofilename c) (info_last E c)
       (n + length (link_events E (corefilename c) (vmcore_last E c) n))"

definition finish_link_events :: "env \<Rightarrow> netdump_client \<Rightarrow> nat \<Rightarrow> event list" where
  "finish_link_events E c n =
     link_events E (corefilename c) (vmcore_last E c) n @
     (if link_ok E (corefilename c) (vmcore_last E c) n
      then link_events E (infofilename c) (info_last E c)
             (n + length (link_events E (corefilename c) (vmcore_last E c) n))
      else [])"

definition finish_done_events ::
  "env \<Rightarrow> bool \<Rightarrow> ptr \<Rightarrow> netdump_client \<Rightarrow> 32 word \<Rightarrow> nat \<Rightarrow> event list" where
  "finish_done_events E g p c seqno n =
     EvPinfo (infofile c) ''Dump complete\<newline>'' #
     EvSend (sock c) seqno (e_send E (Suc n) (sock c) seqno) #
     handler_events E g c ''success'' (n + 2) @
     free_events E p c (n + 2 + length (handler_events E g c ''success'' (n + 2)))"

fun is_success :: "event \<Rightarrow> bool" where
  "is_success (EvHandler r a h i c e) = (r = ''success'')"
| "is_success e = False"

text \<open>The acknowledgements among some events: socket and sequence number of each \<^verbatim>\<open>send\<close>.\<close>

fun acks :: "event list \<Rightarrow> (int \<times> 32 word) list" where
  "acks [] = []"
| "acks (EvSend s n ok # es) = (s, n) # acks es"
| "acks (e # es) = acks es"

text \<open>The FINISHED packet with sequence number 5, and an environment that refuses links.\<close>

definition ex_fin_pkt :: netdump_pkt where
  "ex_fin_pkt =
     \<lparr>hdr = \<lparr>mh_seqno = 5, mh_type = NETDUMP_FINISHED, mh_len = 0, mh_offset = 0\<rparr>,
      pdata = []\<rparr>"

definition ex_env_nolink :: env where
  "ex_env_nolink = ex_env\<lparr>e_symlinkat := (\<lambda>n t l. Some (EOTHER 13))\<rparr>"

text \<open>The events of \<open>handle_kdh\<close> for client \<open>c\<close> at trace position \<open>n\<close>.\<close>

definition kdh_events :: "env \<Rightarrow> netdump_client \<Rightarrow> netdump_pkt \<Rightarrow> nat \<Rightarrow> event list" where
  "kdh_events E c pkt n =
     (if unat (mh_len (hdr pkt)) < KDH_SIZE E
      then [EvPinfo (infofile c) ''Bad KDH: packet too small\<newline>'', EvFflush (infofile c)]
      else map (EvPinfo (infofile c)) kdh_lines @
           [EvFflush (infofile c),
            EvSend (sock c) (mh_seqno (hdr pkt))
              (e_send E (n + length kdh_lines + 1) (sock c) (mh_seqno (hdr pkt)))])"

text \<open>
  A call that makes a handler give up: a \<^verbatim>\<open>pwrite\<close> that did not write the whole
  buffer, an \<^verbatim>\<open>unlinkat\<close> that failed with an error other than \<^verbatim>\<open>ENOENT\<close>, a \<^verbatim>\<open>symlinkat\<close>
  that failed.
\<close>

fun io_failure :: "event \<Rightarrow> bool" where
  "io_failure (EvPwrite fd bs n off r) = (r \<noteq> sint n)"
| "io_failure (EvUnlinkat l r) = (r \<noteq> None \<and> r \<noteq> Some ENOENT)"
| "io_failure (EvSymlinkat t l r) = (r \<noteq> None)"
| "io_failure e = False"

text \<open>Environments that deliver the FINISHED packet of 24 bytes.\<close>

definition ex_env_fin :: env where
  "ex_env_fin = ex_env\<lparr>e_recv := (\<lambda>n s. Inr (24, ex_fin_pkt))\<rparr>"

definition ex_env_fin_nolink :: env where
  "ex_env_fin_nolink = ex_env_nolink\<lparr>e_recv := (\<lambda>n s. Inr (24, ex_fin_pkt))\<rparr>"

text \<open>
  The calls of one turn of the loop of \<^verbatim>\<open>alloc_client\<close> that does not end with both
  files, for the info name \<open>i\<close> and the core name \<open>k\<close>: the info file cannot be created;
  or it is created but no stream can be opened on it, and it is closed and unlinked; or
  it is created and opened, the core file cannot be created, and the info file is closed
  and unlinked.
\<close>

inductive failed_attempt :: "string \<Rightarrow> string \<Rightarrow> event list \<Rightarrow> bool" for i k where
  no_info: "failed_attempt i k [EvOpenat i info_flags (Inl e)]"
| no_stream: "failed_attempt i k
     [EvOpenat i info_flags (Inr fd), EvFdopen (int fd) False, EvClose (int fd), EvUnlink i]"
| no_core: "failed_attempt i k
     [EvOpenat i info_flags (Inr fd), EvFdopen (int fd) True, EvOpenat k core_flags (Inl e),
      EvFclose (Some (int fd)), EvUnlink i]"

text \<open>The calls of the turn that ends with both files, on the descriptors \<open>fd\<close> and \<open>fd2\<close>.\<close>

definition good_attempt :: "string \<Rightarrow> string \<Rightarrow> nat \<Rightarrow> nat \<Rightarrow> event list" where
  "good_attempt i k fd fd2 =
     [EvOpenat i info_flags (Inr fd), EvFdopen (int fd) True, EvOpenat k core_flags (Inr fd2)]"

text \<open>
  \<open>scan_result E c i evs c'\<close>: the events \<open>evs\<close> are a scan of the indices \<open>i\<close>, \<open>i + 1\<close>, ...
  in this order for the client \<open>c\<close>, one failed attempt per index, which either runs
  through index \<open>MAX_DUMPS - 1\<close> and leaves \<open>c'\<close> without files, or stops at the first
  index \<open>k\<close> whose attempt is good and leaves \<open>c'\<close> with the info file and the core file of
  that index.
\<close>

definition scan_result ::
  "env \<Rightarrow> netdump_client \<Rightarrow> nat \<Rightarrow> event list \<Rightarrow> netdump_client \<Rightarrow> bool" where
  "scan_result E c i evs c' \<longleftrightarrow>
     (\<exists>k atts. i \<le> k \<and> k \<le> MAX_DUMPS \<and> length atts = k - i \<and>
        (\<forall>j < k - i. failed_attempt (info_name E c (i + j)) (core_name E c (i + j)) (atts ! j)) \<and>
        (if k = MAX_DUMPS then evs = concat atts \<and> infofile c' = None \<and> corefd c' = - 1
         else \<exists>fd fd2.
                evs = concat atts @ good_attempt (info_name E c k) (core_name E c k) fd fd2 \<and>
                infofilename c' = info_name E c k \<and> corefilename c' = core_name E c k \<and>
                infofile c' = Some (int fd) \<and> corefd c' = int fd2))"

text \<open>What the loop does not touch: everything but the two names and the two files.\<close>

definition same_session :: "netdump_client \<Rightarrow> netdump_client \<Rightarrow> bool" where
  "same_session c c' \<longleftrightarrow>
     path c' = path c \<and> hostname c' = hostname c \<and> last_msg c' = last_msg c \<and>
     ip c' = ip c \<and> sock c' = sock c \<and> any_data_rcvd c' = any_data_rcvd c \<and>
     vmcorebufoff c' = vmcorebufoff c \<and> vmcoreoff c' = vmcoreoff c \<and>
     vmcorebuf c' = vmcorebuf c"

text \<open>The client of donor 10.0.0.2 as \<^verbatim>\<open>alloc_client\<close> has it in front of its loop.\<close>

definition ex_new_client :: netdump_client where
  "ex_new_client =
     \<lparr>path = ''ok'', infofilename = [], corefilename = [], hostname = ''donor'', last_msg = 0,
      ip = 0x0A000002, infofile = None, corefd = - 1, sock = 7, any_data_rcvd = False,
      vmcorebufoff = 0, vmcoreoff = 0, vmcorebuf = []\<rparr>"

text \<open>The globals that only \<^verbatim>\<open>eventloop\<close> and \<^verbatim>\<open>timeout_clients\<close> assign are the same.\<close>

definition same_globals :: "world \<Rightarrow> world \<Rightarrow> bool" where
  "same_globals w w' \<longleftrightarrow>
     g_now w' = g_now w \<and> g_last_timeout_check w' = g_last_timeout_check w \<and>
     g_caphandler w' = g_caphandler w \<and> g_sock w' = g_sock w"

text \<open>The client at \<open>p\<close> is on the list and has received data.\<close>

definition flag_set :: "world \<Rightarrow> ptr \<Rightarrow> bool" where
  "flag_set w p = (case client_at w p of None \<Rightarrow> False | Some c \<Rightarrow> any_data_rcvd c)"

text \<open>
  The events of \<open>sweep\<close> over the clients \<open>cs\<close> at trace position \<open>n\<close>: the time-out path
  for every client with \<open>time_t (last_msg + CLIENT_TIMEOUT) < now\<close>, in list order.
\<close>

fun sweep_events ::
  "env \<Rightarrow> bool \<Rightarrow> int \<Rightarrow> (ptr \<times> netdump_client) list \<Rightarrow> nat \<Rightarrow> event list" where
  "sweep_events E g now [] n = []"
| "sweep_events E g now ((q, c) # cs) n =
     (if time_t (last_msg c + CLIENT_TIMEOUT) < now
      then timeout_events E g q c n @
           sweep_events E g now cs (n + length (timeout_events E g q c n))
      else sweep_events E g now cs n)"

text \<open>The state that a turn of the event loop leaves.\<close>

fun world_of :: "outcome \<Rightarrow> world" where
  "world_of (Again w) = w"
| "world_of (Return n w) = w"
| "world_of (Shutdown w) = w"

text \<open>
  A herald with sequence number 0 from donor 10.0.0.2, on the new socket 9, and the
  session of that donor after it has received data.
\<close>

definition ex_herald :: herald where
  "ex_herald = \<lparr>h_sd = 9, h_saddr = 0x0A000002, h_seqno = 0, h_path = ''ok''\<rparr>"

definition ex_env_herald :: env where
  "ex_env_herald = ex_env\<lparr>e_herald := (\<lambda>n. Inr ex_herald)\<rparr>"

definition ex_busy_client :: netdump_client where
  "ex_busy_client = ex_client\<lparr>any_data_rcvd := True\<rparr>"







text \<open>
  An environment whose clock reads 100 at the first call and 101 afterwards, and which
  delivers a data packet.
\<close>

definition ex_env_tick :: env where
  "ex_env_tick =
     ex_env\<lparr>e_time := (\<lambda>n. if n = 0 then 100 else 101),
            e_recv := (\<lambda>n s. Inr (56, ex_next_pkt))\<rparr>"

text \<open>
  The first session alone, 19 seconds after the last sweep (which was at time 600), and
  the same with the session that has received data.
\<close>

definition ex_w_late :: world where
  "ex_w_late = (ex_world [(8, ex_client)])\<lparr>g_now := 619, g_last_timeout_check := 600\<rparr>"

definition ex_w_busy :: world where
  "ex_w_busy = ex_world [(8, ex_busy_client)]"

text \<open>The state after one turn in which a data packet arrives while the clock ticks.\<close>

definition ex_w_tick :: world where
  "ex_w_tick = world_of (wake ex_env_tick (Inr [KRead 7 8]) (ex_world [(8, ex_client)]))"

text \<open>The state in the middle of that turn, after the clock has been read.\<close>

definition ex_w_ticking :: world where
  "ex_w_ticking = (emit (EvTime 100) (ex_world [(8, ex_client)]))\<lparr>g_now := 100\<rparr>"

text \<open>
  The dump directory. \<^verbatim>\<open>openat\<close>, \<^verbatim>\<open>unlinkat\<close> and \<^verbatim>\<open>symlinkat\<close> are called with
  \<^verbatim>\<open>g_dumpdir_fd\<close> and a relative name: when they succeed they create or remove that name
  in the dump directory. \<^verbatim>\<open>unlink\<close> is called with the relative name alone; the system
  resolves it from the working directory of the process, which is \<^verbatim>\<open>/\<close> after
  \<^verbatim>\<open>daemon(0, 0)\<close>, and refuses it in capability mode, which \<^verbatim>\<open>main\<close> enters before the
  event loop: it removes nothing from the dump directory. \<open>dumpdir_after evs fs\<close> are the
  names in the dump directory after the calls \<open>evs\<close>, when \<open>fs\<close> are the names before.
\<close>

fun dumpdir_step :: "string set \<Rightarrow> event \<Rightarrow> string set" where
  "dumpdir_step fs (EvOpenat name flags (Inr fd)) =
     (if O_CREAT \<in> set flags then insert name fs else fs)"
| "dumpdir_step fs (EvUnlinkat name None) = fs - {name}"
| "dumpdir_step fs (EvSymlinkat target name None) = insert name fs"
| "dumpdir_step fs e = fs"

definition dumpdir_after :: "event list \<Rightarrow> string set \<Rightarrow> string set" where
  "dumpdir_after evs fs = foldl dumpdir_step fs evs"

fun is_unlinkat :: "event \<Rightarrow> bool" where
  "is_unlinkat (EvUnlinkat l r) = True"
| "is_unlinkat e = False"

text \<open>
  An environment in which \<^verbatim>\<open>vmcore.donor.0\<close> exists in the dump directory and
  \<^verbatim>\<open>info.donor.0\<close> does not.
\<close>

definition ex_env_core_exists :: env where
  "ex_env_core_exists =
     ex_env\<lparr>e_openat := (\<lambda>n s. if s = ''ok/vmcore.donor.0'' then Inl EEXIST else Inr n)\<rparr>"

text \<open>
  A FINISHED packet and its retransmission: \<^verbatim>\<open>symlinkat\<close> fails while the first is
  handled (up to trace position 5) and works afterwards.
\<close>

definition ex_env_fin_retry :: env where
  "ex_env_fin_retry =
     ex_env\<lparr>e_recv := (\<lambda>n s. Inr (24, ex_fin_pkt)),
            e_symlinkat := (\<lambda>n t l. if n < 6 then Some (EOTHER 13) else None)\<rparr>"

definition ex_w_fin1 :: world where
  "ex_w_fin1 = client_event ex_env_fin_retry 8 (ex_world [(8, ex_client)])"

definition ex_w_fin2 :: world where
  "ex_w_fin2 = client_event ex_env_fin_retry 8 ex_w_fin1"

text \<open>A KDH packet without payload, and an environment that delivers it.\<close>

definition ex_short_kdh :: netdump_pkt where
  "ex_short_kdh =
     \<lparr>hdr = \<lparr>mh_seqno = 1, mh_type = NETDUMP_KDH, mh_len = 0, mh_offset = 0\<rparr>, pdata = []\<rparr>"

definition ex_env_short_kdh :: env where
  "ex_env_short_kdh = ex_env\<lparr>e_recv := (\<lambda>n s. Inr (24, ex_short_kdh))\<rparr>"



text \<open>The state after a FINISHED packet whose first \<^verbatim>\<open>symlinkat\<close> failed.\<close>

definition ex_w_fin_fail :: world where
  "ex_w_fin_fail = handle_finish ex_env_fin_retry 8 ex_fin_pkt (ex_world [(8, ex_client)])"

section \<open>Basic facts about the state\<close>

lemma emit_simps [simp]:
  "trace (emit e w) = trace w @ [e]"
  "pos (emit e w) = Suc (pos w)"
  "g_clients (emit e w) = g_clients w"
  "fault (emit e w) = fault w"
  "g_caphandler (emit e w) = g_caphandler w"
  "g_now (emit e w) = g_now w"
  "g_last_timeout_check (emit e w) = g_last_timeout_check w"
  "g_sock (emit e w) = g_sock w"
  "client_at (emit e w) p = client_at w p"
  by (simp_all add: emit_def pos_def client_at_def)

lemma set_client_simps [simp]:
  "trace (set_client p c w) = trace w"
  "pos (set_client p c w) = pos w"
  "fault (set_client p c w) = fault w"
  "g_caphandler (set_client p c w) = g_caphandler w"
  "g_now (set_client p c w) = g_now w"
  "g_last_timeout_check (set_client p c w) = g_last_timeout_check w"
  "g_sock (set_client p c w) = g_sock w"
  by (simp_all add: set_client_def pos_def)

lemma raise_fault_simps [simp]:
  "trace (raise_fault f w) = trace w"
  "pos (raise_fault f w) = pos w"
  "fault (raise_fault f w) = Some f"
  "g_clients (raise_fault f w) = g_clients w"
  "g_caphandler (raise_fault f w) = g_caphandler w"
  "g_now (raise_fault f w) = g_now w"
  "g_last_timeout_check (raise_fault f w) = g_last_timeout_check w"
  "g_sock (raise_fault f w) = g_sock w"
  "client_at (raise_fault f w) p = client_at w p"
  by (simp_all add: raise_fault_def pos_def client_at_def)

lemma map_of_replace:
  "map_of (map (\<lambda>(q, d). if q = p then (q, c) else (q, d)) cs) q =
     (if q = p then map_option (\<lambda>d. c) (map_of cs p) else map_of cs q)"
  by (induction cs) auto

lemma map_of_remove:
  "map_of (filter (\<lambda>(q, d). q \<noteq> p) cs) q = (if q = p then None else map_of cs q)"
  by (induction cs) auto

lemma client_at_set_client [simp]:
  "client_at (set_client p c w) q =
     (if q = p then map_option (\<lambda>d. c) (client_at w p) else client_at w q)"
  by (simp add: client_at_def set_client_def map_of_replace)

lemma client_at_in_set: "client_at w p = Some c \<Longrightarrow> (p, c) \<in> set (g_clients w)"
  by (simp add: client_at_def map_of_SomeD)

lemma new_events_append [simp]: "trace w' = trace w @ evs \<Longrightarrow> new_events w w' = evs"
  by (simp add: new_events_def)

subsection \<open>Sending, the handler, leaving\<close>

lemma send_ack_simps [simp]:
  "trace (send_ack E c n w) = trace w @ [EvSend (sock c) n (e_send E (pos w) (sock c) n)]"
  "pos (send_ack E c n w) = Suc (pos w)"
  "g_clients (send_ack E c n w) = g_clients w"
  "fault (send_ack E c n w) = fault w"
  "g_caphandler (send_ack E c n w) = g_caphandler w"
  "g_now (send_ack E c n w) = g_now w"
  "g_last_timeout_check (send_ack E c n w) = g_last_timeout_check w"
  "g_sock (send_ack E c n w) = g_sock w"
  "client_at (send_ack E c n w) p = client_at w p"
  by (simp_all add: send_ack_def Let_def)

lemma exec_handler_simps [simp]:
  "trace (exec_handler E c r w) = trace w @ handler_events E (g_caphandler w) c r (pos w)"
  "pos (exec_handler E c r w) = pos w + length (handler_events E (g_caphandler w) c r (pos w))"
  "g_clients (exec_handler E c r w) = g_clients w"
  "fault (exec_handler E c r w) = fault w"
  "g_caphandler (exec_handler E c r w) = g_caphandler w"
  "g_now (exec_handler E c r w) = g_now w"
  "g_last_timeout_check (exec_handler E c r w) = g_last_timeout_check w"
  "g_sock (exec_handler E c r w) = g_sock w"
  "client_at (exec_handler E c r w) p = client_at w p"
  by (simp_all add: exec_handler_def handler_events_def Let_def)

lemma free_client_simps:
  assumes "client_at w p = Some c"
  shows "trace (free_client E p w) = trace w @ free_events E p c (pos w)"
    and "pos (free_client E p w) = pos w + 5"
    and "g_clients (free_client E p w) = filter (\<lambda>(q, d). q \<noteq> p) (g_clients w)"
    and "fault (free_client E p w) = fault w"
    and "g_caphandler (free_client E p w) = g_caphandler w"
    and "g_now (free_client E p w) = g_now w"
    and "g_last_timeout_check (free_client E p w) = g_last_timeout_check w"
    and "g_sock (free_client E p w) = g_sock w"
    and "client_at (free_client E p w) q = (if q = p then None else client_at w q)"
  using assms
  by (simp_all add: free_client_def free_events_def Let_def pos_def client_at_def map_of_remove)

lemma handle_timeout_simps:
  assumes "client_at w p = Some c"
  shows "trace (handle_timeout E p w) = trace w @ timeout_events E (g_caphandler w) p c (pos w)"
    and "g_clients (handle_timeout E p w) = filter (\<lambda>(q, d). q \<noteq> p) (g_clients w)"
    and "fault (handle_timeout E p w) = fault w"
    and "g_caphandler (handle_timeout E p w) = g_caphandler w"
    and "g_now (handle_timeout E p w) = g_now w"
    and "g_last_timeout_check (handle_timeout E p w) = g_last_timeout_check w"
    and "g_sock (handle_timeout E p w) = g_sock w"
    and "client_at (handle_timeout E p w) q = (if q = p then None else client_at w q)"
  using assms
  by (simp_all add: handle_timeout_def timeout_events_def Let_def free_client_simps)


subsection \<open>The coalescer\<close>

lemma vmcore_flush_ok:
  assumes "client_at w p = Some c" "flush_result E c (pos w) = sint (vmcorebufoff c)"
  shows "vmcore_flush E p w =
           (0, set_client p (c\<lparr>vmcorebufoff := 0\<rparr>) (emit (flush_write c (sint (vmcorebufoff c))) w))"
  using assms by (simp add: vmcore_flush_def flush_write_def flush_result_def Let_def)

lemma vmcore_flush_failed:
  assumes "client_at w p = Some c" "flush_result E c (pos w) \<noteq> sint (vmcorebufoff c)"
  shows "fst (vmcore_flush E p w) = 1"
    and "trace (snd (vmcore_flush E p w)) =
           trace w @ flush_write c (flush_result E c (pos w)) #
             flush_failure_events E (g_caphandler w) p c (Suc (pos w))"
    and "g_clients (snd (vmcore_flush E p w)) = filter (\<lambda>(q, d). q \<noteq> p) (g_clients w)"
    and "fault (snd (vmcore_flush E p w)) = fault w"
    and "g_caphandler (snd (vmcore_flush E p w)) = g_caphandler w"
    and "g_now (snd (vmcore_flush E p w)) = g_now w"
    and "g_last_timeout_check (snd (vmcore_flush E p w)) = g_last_timeout_check w"
    and "g_sock (snd (vmcore_flush E p w)) = g_sock w"
    and "client_at (snd (vmcore_flush E p w)) q = (if q = p then None else client_at w q)"
  using assms
  by (simp_all add: vmcore_flush_def flush_write_def flush_result_def flush_failure_events_def
        Let_def free_client_simps)

lemma fill_inv_emit [simp]: "fill_inv (emit e w) = fill_inv w"
  by (simp add: fill_inv_def)

lemma fill_inv_client:
  "fill_inv w \<Longrightarrow> client_at w p = Some c \<Longrightarrow> unat (vmcorebufoff c) \<le> VMCORE_BUFSZ"
  unfolding fill_inv_def by (auto dest: client_at_in_set)

lemma fill_inv_set_client:
  "fill_inv w \<Longrightarrow> unat (vmcorebufoff c) \<le> VMCORE_BUFSZ \<Longrightarrow> fill_inv (set_client p c w)"
  unfolding fill_inv_def set_client_def by (auto split: if_splits)

lemma fill_inv_filter:
  "fill_inv w \<Longrightarrow> g_clients w' = filter P (g_clients w) \<Longrightarrow> fill_inv w'"
  unfolding fill_inv_def by auto

lemma fill_inv_vmcore_flush:
  assumes "fill_inv w"
  shows "fill_inv (snd (vmcore_flush E p w))"
proof (cases "client_at w p")
  case None
  then show ?thesis using assms by (simp add: vmcore_flush_def fill_inv_def)
next
  case (Some c)
  show ?thesis
  proof (cases "flush_result E c (pos w) = sint (vmcorebufoff c)")
    case True
    then show ?thesis using Some assms
      by (simp add: vmcore_flush_ok fill_inv_set_client)
  next
    case False
    then show ?thesis using Some assms
      by (blast intro: fill_inv_filter vmcore_flush_failed(3))
  qed
qed

lemma no_flush_room:
  assumes "\<not> need_flush E c pkt" "unat (vmcorebufoff c) \<le> VMCORE_BUFSZ"
    "NETDUMP_DATASIZE E \<le> VMCORE_BUFSZ"
  shows "unat (vmcorebufoff c) + NETDUMP_DATASIZE E \<le> VMCORE_BUFSZ"
proof -
  let ?f = "vmcorebufoff c" and ?d = "of_nat (NETDUMP_DATASIZE E) :: 64 word"
  have d: "unat ?d = NETDUMP_DATASIZE E"
    using assms(3) by (simp add: unat_of_nat VMCORE_BUFSZ_def)
  have b: "unat (of_nat VMCORE_BUFSZ :: 64 word) = VMCORE_BUFSZ"
    by (simp add: VMCORE_BUFSZ_def)
  have "unat ?f + unat ?d < 2 ^ 64"
    using assms(2,3) d by (simp add: VMCORE_BUFSZ_def)
  then have s: "unat (?f + ?d) = unat ?f + unat ?d"
    by (simp add: unat_add_lem [THEN iffD1])
  from assms(1) have "\<not> (of_nat VMCORE_BUFSZ < ?f + ?d)"
    by (simp add: need_flush_def)
  then have "unat (?f + ?d) \<le> unat (of_nat VMCORE_BUFSZ :: 64 word)"
    by (simp add: word_less_nat_alt not_less)
  with s d b show ?thesis by simp
qed

lemma unat_ucast_len: "unat (ucast (x :: 32 word) :: 64 word) = unat x"
proof -
  have "unat x < 2 ^ 32"
    using unsigned_less [of x, where 'a = nat] by simp
  then show ?thesis
    by (simp add: unsigned_ucast_eq take_bit_nat_eq_self)
qed

lemma stage_fits:
  assumes "unat (vmcorebufoff c) + unat (mh_len (hdr pkt)) \<le> VMCORE_BUFSZ"
  shows "stage c pkt =
           Some (c\<lparr>vmcorebuf := take (unat (vmcorebufoff c)) (vmcorebuf c) @
                                  take (unat (mh_len (hdr pkt))) (pdata pkt),
                   vmcoreoff := (if vmcorebufoff c = 0 then mh_offset (hdr pkt) else vmcoreoff c),
                   vmcorebufoff := vmcorebufoff c + ucast (mh_len (hdr pkt))\<rparr>)"
    and "unat (vmcorebufoff c + ucast (mh_len (hdr pkt))) =
           unat (vmcorebufoff c) + unat (mh_len (hdr pkt))"
proof -
  have "unat (vmcorebufoff c) + unat (ucast (mh_len (hdr pkt)) :: 64 word) < 2 ^ 64"
    using assms by (simp add: VMCORE_BUFSZ_def unat_ucast_len)
  then show "unat (vmcorebufoff c + ucast (mh_len (hdr pkt))) =
           unat (vmcorebufoff c) + unat (mh_len (hdr pkt))"
    by (simp add: unat_add_lem [THEN iffD1] unat_ucast_len)
  show "stage c pkt =
           Some (c\<lparr>vmcorebuf := take (unat (vmcorebufoff c)) (vmcorebuf c) @
                                  take (unat (mh_len (hdr pkt))) (pdata pkt),
                   vmcoreoff := (if vmcorebufoff c = 0 then mh_offset (hdr pkt) else vmcoreoff c),
                   vmcorebufoff := vmcorebufoff c + ucast (mh_len (hdr pkt))\<rparr>)"
    using assms by (simp add: stage_def Let_def)
qed

text \<open>After the first half of \<open>handle_vmcore\<close> the packet fits behind the fill.\<close>

lemma make_room_fits:
  assumes "fill_inv w" "unat (mh_len (hdr pkt)) \<le> NETDUMP_DATASIZE E"
    "NETDUMP_DATASIZE E \<le> VMCORE_BUFSZ"
    "vmcore_make_room E p pkt w = (0, w2)" "client_at w2 p = Some c2"
  shows "unat (vmcorebufoff c2) + unat (mh_len (hdr pkt)) \<le> VMCORE_BUFSZ"
proof (cases "client_at w p")
  case None
  then show ?thesis using assms(4) by (simp add: vmcore_make_room_def)
next
  case (Some c0)
  let ?c = "c0\<lparr>any_data_rcvd := True\<rparr>"
  let ?w1 = "set_client p ?c w"
  have c1: "client_at ?w1 p = Some ?c" using Some by simp
  have f0: "unat (vmcorebufoff ?c) \<le> VMCORE_BUFSZ"
    using fill_inv_client [OF assms(1) Some] by simp
  show ?thesis
  proof (cases "need_flush E ?c pkt")
    case False
    then have "w2 = ?w1" using assms(4) Some by (simp add: vmcore_make_room_def Let_def)
    then have "c2 = ?c" using assms(5) c1 by simp
    then show ?thesis using no_flush_room [OF False f0 assms(3)] assms(2) by simp
  next
    case True
    then have fl: "vmcore_flush E p ?w1 = (0, w2)"
      using assms(4) Some by (simp add: vmcore_make_room_def Let_def)
    have "flush_result E ?c (pos ?w1) = sint (vmcorebufoff ?c)"
    proof (rule ccontr)
      assume "flush_result E ?c (pos ?w1) \<noteq> sint (vmcorebufoff ?c)"
      from vmcore_flush_failed(1) [OF c1 this] fl show False by simp
    qed
    from vmcore_flush_ok [OF c1 this] fl assms(5) c1 have "vmcorebufoff c2 = 0"
      by auto
    then show ?thesis using assms(2,3) by simp
  qed
qed


lemma need_flush_iff:
  assumes "unat (vmcorebufoff c) \<le> VMCORE_BUFSZ" "NETDUMP_DATASIZE E \<le> VMCORE_BUFSZ"
  shows "need_flush E c pkt \<longleftrightarrow>
           unat (vmcorebufoff c) + NETDUMP_DATASIZE E > VMCORE_BUFSZ \<or>
           (vmcorebufoff c \<noteq> 0 \<and> vmcoreoff c + vmcorebufoff c \<noteq> mh_offset (hdr pkt))"
proof -
  let ?f = "vmcorebufoff c" and ?d = "of_nat (NETDUMP_DATASIZE E) :: 64 word"
  have d: "unat ?d = NETDUMP_DATASIZE E"
    using assms(2) by (simp add: unat_of_nat VMCORE_BUFSZ_def)
  have b: "unat (of_nat VMCORE_BUFSZ :: 64 word) = VMCORE_BUFSZ"
    by (simp add: VMCORE_BUFSZ_def)
  have "unat ?f + unat ?d < 2 ^ 64"
    using assms d by (simp add: VMCORE_BUFSZ_def)
  then have "unat (?f + ?d) = unat ?f + unat ?d"
    by (simp add: unat_add_lem [THEN iffD1])
  then have "of_nat VMCORE_BUFSZ < ?f + ?d \<longleftrightarrow> unat ?f + NETDUMP_DATASIZE E > VMCORE_BUFSZ"
    using d b by (simp add: word_less_nat_alt)
  then show ?thesis
    by (simp add: need_flush_def word_greater_zero_iff)
qed

lemma handle_vmcore_noflush:
  assumes "client_at w p = Some c0" "\<not> need_flush E (c0\<lparr>any_data_rcvd := True\<rparr>) pkt"
    "stage (c0\<lparr>any_data_rcvd := True\<rparr>) pkt = Some c3"
  shows "handle_vmcore E p pkt w =
           send_ack E c3 (mh_seqno (hdr pkt))
             (set_client p c3 (set_client p (c0\<lparr>any_data_rcvd := True\<rparr>) w))"
  using assms by (simp add: handle_vmcore_def vmcore_make_room_def Let_def)

lemma handle_vmcore_flushed:
  assumes "client_at w p = Some c0" "need_flush E (c0\<lparr>any_data_rcvd := True\<rparr>) pkt"
    "flush_result E (c0\<lparr>any_data_rcvd := True\<rparr>) (pos w) = sint (vmcorebufoff c0)"
    "stage (c0\<lparr>any_data_rcvd := True, vmcorebufoff := 0\<rparr>) pkt = Some c3"
  shows "handle_vmcore E p pkt w =
           send_ack E c3 (mh_seqno (hdr pkt))
             (set_client p c3
                (set_client p (c0\<lparr>any_data_rcvd := True, vmcorebufoff := 0\<rparr>)
                   (emit (flush_write (c0\<lparr>any_data_rcvd := True\<rparr>) (sint (vmcorebufoff c0)))
                      (set_client p (c0\<lparr>any_data_rcvd := True\<rparr>) w))))"
proof -
  let ?c = "c0\<lparr>any_data_rcvd := True\<rparr>"
  have c1: "client_at (set_client p ?c w) p = Some ?c" using assms(1) by simp
  have "flush_result E ?c (pos (set_client p ?c w)) = sint (vmcorebufoff ?c)"
    using assms(3) by simp
  from vmcore_flush_ok [OF c1 this] assms show ?thesis
    by (simp add: handle_vmcore_def vmcore_make_room_def Let_def)
qed

lemma handle_vmcore_failed:
  assumes "client_at w p = Some c0" "need_flush E (c0\<lparr>any_data_rcvd := True\<rparr>) pkt"
    "flush_result E (c0\<lparr>any_data_rcvd := True\<rparr>) (pos w) \<noteq> sint (vmcorebufoff c0)"
  shows "handle_vmcore E p pkt w =
           snd (vmcore_flush E p (set_client p (c0\<lparr>any_data_rcvd := True\<rparr>) w))"
proof -
  let ?c = "c0\<lparr>any_data_rcvd := True\<rparr>"
  have c1: "client_at (set_client p ?c w) p = Some ?c" using assms(1) by simp
  have "flush_result E ?c (pos (set_client p ?c w)) \<noteq> sint (vmcorebufoff ?c)"
    using assms(3) by simp
  from vmcore_flush_failed(1) [OF c1 this] assms show ?thesis
    by (auto simp: handle_vmcore_def vmcore_make_room_def Let_def split: prod.splits)
qed

lemma fill_inv_send_ack [simp]: "fill_inv (send_ack E c n w) = fill_inv w"
  by (simp add: fill_inv_def)

lemma fill_inv_raise_fault [simp]: "fill_inv (raise_fault f w) = fill_inv w"
  by (simp add: fill_inv_def)

lemma handle_vmcore_safe:
  assumes "fill_inv w" "unat (mh_len (hdr pkt)) \<le> NETDUMP_DATASIZE E"
    "NETDUMP_DATASIZE E \<le> VMCORE_BUFSZ"
  shows "fill_inv (handle_vmcore E p pkt w)"
    and "fault (handle_vmcore E p pkt w) =
           (if client_at w p = None then Some (UseAfterFree p) else fault w)"
proof -
  have "fill_inv (handle_vmcore E p pkt w) \<and>
        fault (handle_vmcore E p pkt w) =
           (if client_at w p = None then Some (UseAfterFree p) else fault w)"
  proof (cases "client_at w p")
    case None
    then show ?thesis using assms(1)
      by (simp add: handle_vmcore_def vmcore_make_room_def)
  next
    case (Some c0)
    let ?c = "c0\<lparr>any_data_rcvd := True\<rparr>"
    have f0: "unat (vmcorebufoff ?c) \<le> VMCORE_BUFSZ"
      using fill_inv_client [OF assms(1) Some] by simp
    have i1: "fill_inv (set_client p ?c w)"
      using assms(1) f0 by (rule fill_inv_set_client)
    show ?thesis
    proof (cases "need_flush E ?c pkt")
      case False
      have fit: "unat (vmcorebufoff ?c) + unat (mh_len (hdr pkt)) \<le> VMCORE_BUFSZ"
        using no_flush_room [OF False f0 assms(3)] assms(2) by simp
      note st = stage_fits [OF fit]
      show ?thesis
        using Some fit i1 st(2)
        by (simp add: handle_vmcore_noflush [OF Some False st(1)] fill_inv_set_client)
    next
      case True
      show ?thesis
      proof (cases "flush_result E ?c (pos w) = sint (vmcorebufoff c0)")
        case ok: True
        let ?z = "c0\<lparr>any_data_rcvd := True, vmcorebufoff := 0\<rparr>"
        have fit: "unat (vmcorebufoff ?z) + unat (mh_len (hdr pkt)) \<le> VMCORE_BUFSZ"
          using assms(2,3) by simp
        note st = stage_fits [OF fit]
        have z: "unat (vmcorebufoff ?z) \<le> VMCORE_BUFSZ" by simp
        show ?thesis
          using Some fit i1 st(2) z
          by (simp add: handle_vmcore_flushed [OF Some True ok st(1)] fill_inv_set_client)
      next
        case bad: False
        have c1: "client_at (set_client p ?c w) p = Some ?c" using Some by simp
        have b': "flush_result E ?c (pos (set_client p ?c w)) \<noteq> sint (vmcorebufoff ?c)"
          using bad by simp
        show ?thesis
          using Some fill_inv_vmcore_flush [OF i1, of E p] vmcore_flush_failed(4) [OF c1 b']
          by (simp add: handle_vmcore_failed [OF Some True bad])
      qed
    qed
  qed
  then show "fill_inv (handle_vmcore E p pkt w)"
    and "fault (handle_vmcore E p pkt w) =
           (if client_at w p = None then Some (UseAfterFree p) else fault w)"
    by simp_all
qed


section \<open>The claims about the coalescer\<close>

text \<open>
  C10. For a VMCORE packet whose payload length is at most \<^verbatim>\<open>NETDUMP_DATASIZE\<close> (which is
  at most the capacity of the buffer): behind the flush under \<^verbatim>\<open>if\<close> the fill plus the
  payload length does not exceed \<^verbatim>\<open>VMCORE_BUFSZ\<close>, so the copy stays inside the
  buffer (\<open>stage\<close> succeeds and \<open>handle_vmcore\<close> raises no fault of its own), and
  \<open>handle_vmcore\<close> and \<open>vmcore_flush\<close> keep every fill within the capacity.
\<close>

theorem vmcore_copy_within_buffer:
  assumes "fill_inv w" and "unat (mh_len (hdr pkt)) \<le> NETDUMP_DATASIZE E"
    and "NETDUMP_DATASIZE E \<le> VMCORE_BUFSZ"
  shows "(\<forall>w2 c2. vmcore_make_room E p pkt w = (0, w2) \<and> client_at w2 p = Some c2 \<longrightarrow>
            unat (vmcorebufoff c2) + unat (mh_len (hdr pkt)) \<le> VMCORE_BUFSZ \<and>
            stage c2 pkt \<noteq> None) \<and>
         fault (handle_vmcore E p pkt w) =
           (if client_at w p = None then Some (UseAfterFree p) else fault w) \<and>
         fill_inv (handle_vmcore E p pkt w) \<and>
         fill_inv (snd (vmcore_flush E p w))"
proof (intro conjI allI impI)
  fix w2 c2
  assume a: "vmcore_make_room E p pkt w = (0, w2) \<and> client_at w2 p = Some c2"
  then show fit: "unat (vmcorebufoff c2) + unat (mh_len (hdr pkt)) \<le> VMCORE_BUFSZ"
    using make_room_fits [OF assms] by blast
  show "stage c2 pkt \<noteq> None"
    using stage_fits(1) [OF fit] by simp
next
  show "fault (handle_vmcore E p pkt w) =
           (if client_at w p = None then Some (UseAfterFree p) else fault w)"
    by (rule handle_vmcore_safe(2) [OF assms])
  show "fill_inv (handle_vmcore E p pkt w)"
    by (rule handle_vmcore_safe(1) [OF assms])
  show "fill_inv (snd (vmcore_flush E p w))"
    by (rule fill_inv_vmcore_flush [OF assms(1)])
qed

lemma ex_full_simps:
  "fill_inv (ex_world [(8, ex_full_client)])"
  "client_at (ex_world [(8, ex_full_client)]) 8 = Some ex_full_client"
  "unat (mh_len (hdr ex_next_pkt)) \<le> NETDUMP_DATASIZE ex_env"
  "NETDUMP_DATASIZE ex_env \<le> VMCORE_BUFSZ"
  "fault (ex_world cs) = None"
  by (simp_all add: fill_inv_def ex_world_def ex_full_client_def ex_client_def VMCORE_BUFSZ_def
        client_at_def ex_env_def ex_next_pkt_def)

theorem vmcore_copy_within_buffer_witness:
  "fill_inv (ex_world [(8, ex_full_client)]) \<and>
   unat (mh_len (hdr ex_next_pkt)) \<le> NETDUMP_DATASIZE ex_env \<and>
   NETDUMP_DATASIZE ex_env \<le> VMCORE_BUFSZ \<and>
   fault (handle_vmcore ex_env 8 ex_next_pkt (ex_world [(8, ex_full_client)])) = None \<and>
   fill_inv (handle_vmcore ex_env 8 ex_next_pkt (ex_world [(8, ex_full_client)]))"
proof -
  note h = ex_full_simps(1,3,4)
  from vmcore_copy_within_buffer [OF h, of 8] show ?thesis
    using h by (simp add: ex_full_simps(2,5))
qed

text \<open>
  C2, as the code has it. Let the fill be within the capacity and the payload at most
  one data unit. (1) Into an empty buffer the payload is copied without a flush and the
  base becomes the packet's offset. (2) If the buffer is not empty, the packet's offset
  equals base + fill, and a whole data unit of \<^verbatim>\<open>NETDUMP_DATASIZE\<close> bytes (not only this
  payload) still fits behind the fill, the payload is appended without a flush. (3) In
  every other case the buffer is flushed first, by one \<^verbatim>\<open>pwrite\<close> of the buffered bytes
  at the base; if that write is complete the packet is staged as into an empty buffer,
  and if it is not the session is gone.
\<close>

theorem vmcore_stage_rules:
  assumes "client_at w p = Some c" and "unat (vmcorebufoff c) \<le> VMCORE_BUFSZ"
    and "unat (mh_len (hdr pkt)) \<le> NETDUMP_DATASIZE E"
    and "NETDUMP_DATASIZE E \<le> VMCORE_BUFSZ"
  shows
    "let w' = handle_vmcore E p pkt w;
         payload = take (unat (mh_len (hdr pkt))) (pdata pkt);
         buffered = take (unat (vmcorebufoff c)) (vmcorebuf c);
         fresh = c\<lparr>any_data_rcvd := True, vmcorebuf := payload,
                   vmcoreoff := mh_offset (hdr pkt),
                   vmcorebufoff := ucast (mh_len (hdr pkt))\<rparr>
     in if vmcorebufoff c = 0 then
          (\<forall>e \<in> set (new_events w w'). \<not> is_pwrite e) \<and> client_at w' p = Some fresh
        else if vmcoreoff c + vmcorebufoff c = mh_offset (hdr pkt) \<and>
                unat (vmcorebufoff c) + NETDUMP_DATASIZE E \<le> VMCORE_BUFSZ then
          (\<forall>e \<in> set (new_events w w'). \<not> is_pwrite e) \<and>
          client_at w' p =
            Some (c\<lparr>any_data_rcvd := True, vmcorebuf := buffered @ payload,
                    vmcorebufoff := vmcorebufoff c + ucast (mh_len (hdr pkt))\<rparr>)
        else
          (\<exists>r rest. new_events w w' = flush_write c r # rest \<and>
             (if r = sint (vmcorebufoff c) then client_at w' p = Some fresh
              else client_at w' p = None))"
proof -
  let ?c = "c\<lparr>any_data_rcvd := True\<rparr>"
  have f0: "unat (vmcorebufoff ?c) \<le> VMCORE_BUFSZ" using assms(2) by simp
  note nf = need_flush_iff [OF f0 assms(4), of pkt]
  show ?thesis
  proof (cases "need_flush E ?c pkt")
    case False
    have fit: "unat (vmcorebufoff ?c) + unat (mh_len (hdr pkt)) \<le> VMCORE_BUFSZ"
      using no_flush_room [OF False f0 assms(4)] assms(3) by simp
    note st = stage_fits(1) [OF fit]
    have "trace (handle_vmcore E p pkt w) =
            trace w @ [EvSend (sock c) (mh_seqno (hdr pkt))
                         (e_send E (pos w) (sock c) (mh_seqno (hdr pkt)))]"
      by (simp add: handle_vmcore_noflush [OF assms(1) False st])
    then have ne: "new_events w (handle_vmcore E p pkt w) =
            [EvSend (sock c) (mh_seqno (hdr pkt))
               (e_send E (pos w) (sock c) (mh_seqno (hdr pkt)))]"
      by (rule new_events_append)
    have A: "unat (vmcorebufoff c) + NETDUMP_DATASIZE E \<le> VMCORE_BUFSZ"
      and B: "vmcorebufoff c = 0 \<or> vmcoreoff c + vmcorebufoff c = mh_offset (hdr pkt)"
      using False nf by auto
    have cl: "client_at (handle_vmcore E p pkt w) p =
          Some (c\<lparr>any_data_rcvd := True,
                  vmcorebuf := take (unat (vmcorebufoff c)) (vmcorebuf c) @
                               take (unat (mh_len (hdr pkt))) (pdata pkt),
                  vmcoreoff := (if vmcorebufoff c = 0 then mh_offset (hdr pkt) else vmcoreoff c),
                  vmcorebufoff := vmcorebufoff c + ucast (mh_len (hdr pkt))\<rparr>)"
      using assms(1) by (simp add: handle_vmcore_noflush [OF assms(1) False st])
    show ?thesis
      using A B by (auto simp add: Let_def ne cl)
  next
    case True
    show ?thesis
    proof (cases "flush_result E ?c (pos w) = sint (vmcorebufoff c)")
      case ok: True
      let ?z = "c\<lparr>any_data_rcvd := True, vmcorebufoff := 0\<rparr>"
      have fit: "unat (vmcorebufoff ?z) + unat (mh_len (hdr pkt)) \<le> VMCORE_BUFSZ"
        using assms(3,4) by simp
      note st = stage_fits(1) [OF fit]
      note hv = handle_vmcore_flushed [OF assms(1) True ok st]
      have "trace (handle_vmcore E p pkt w) =
              trace w @ flush_write c (sint (vmcorebufoff c)) #
                [EvSend (sock c) (mh_seqno (hdr pkt))
                   (e_send E (Suc (pos w)) (sock c) (mh_seqno (hdr pkt)))]"
        by (simp add: hv flush_write_def)
      then have ne: "new_events w (handle_vmcore E p pkt w) =
              flush_write c (sint (vmcorebufoff c)) #
                [EvSend (sock c) (mh_seqno (hdr pkt))
                   (e_send E (Suc (pos w)) (sock c) (mh_seqno (hdr pkt)))]"
        by (rule new_events_append)
      have "vmcorebufoff c \<noteq> 0"
        using True nf assms(4) by auto
      moreover have "client_at (handle_vmcore E p pkt w) p =
          Some (c\<lparr>any_data_rcvd := True, vmcorebuf := take (unat (mh_len (hdr pkt))) (pdata pkt),
                  vmcoreoff := mh_offset (hdr pkt),
                  vmcorebufoff := ucast (mh_len (hdr pkt))\<rparr>)"
        using assms(1) by (simp add: hv)
      moreover have "\<not> (vmcoreoff c + vmcorebufoff c = mh_offset (hdr pkt) \<and>
                unat (vmcorebufoff c) + NETDUMP_DATASIZE E \<le> VMCORE_BUFSZ)"
        using True nf by auto
      ultimately show ?thesis
        by (auto simp add: Let_def ne)
    next
      case bad: False
      have c1: "client_at (set_client p ?c w) p = Some ?c" using assms(1) by simp
      have b': "flush_result E ?c (pos (set_client p ?c w)) \<noteq> sint (vmcorebufoff ?c)"
        using bad by simp
      note hv = handle_vmcore_failed [OF assms(1) True bad]
      have "trace (handle_vmcore E p pkt w) =
              trace w @ flush_write c (flush_result E ?c (pos w)) #
                flush_failure_events E (g_caphandler w) p ?c (Suc (pos w))"
        using vmcore_flush_failed(2) [OF c1 b'] by (simp add: hv flush_write_def)
      then have ne: "new_events w (handle_vmcore E p pkt w) =
              flush_write c (flush_result E ?c (pos w)) #
                flush_failure_events E (g_caphandler w) p ?c (Suc (pos w))"
        by (rule new_events_append)
      have "vmcorebufoff c \<noteq> 0"
        using True nf assms(4) by auto
      moreover have "client_at (handle_vmcore E p pkt w) p = None"
        using vmcore_flush_failed(9) [OF c1 b', of p] by (simp add: hv)
      moreover have "\<not> (vmcoreoff c + vmcorebufoff c = mh_offset (hdr pkt) \<and>
                unat (vmcorebufoff c) + NETDUMP_DATASIZE E \<le> VMCORE_BUFSZ)"
        using True nf by auto
      ultimately show ?thesis
        using bad by (auto simp add: Let_def ne flush_result_def flush_write_def)
    qed
  qed
qed


lemma ex_client_simps:
  "client_at (ex_world [(8, ex_client)]) 8 = Some ex_client"
  "unat (vmcorebufoff ex_client) \<le> VMCORE_BUFSZ"
  "vmcorebufoff ex_client = 0"
  by (simp_all add: ex_world_def ex_client_def client_at_def)

theorem vmcore_stage_rules_witness:
  "client_at (ex_world [(8, ex_client)]) 8 = Some ex_client \<and>
   unat (vmcorebufoff ex_client) \<le> VMCORE_BUFSZ \<and>
   unat (mh_len (hdr ex_next_pkt)) \<le> NETDUMP_DATASIZE ex_env \<and>
   NETDUMP_DATASIZE ex_env \<le> VMCORE_BUFSZ \<and>
   client_at (handle_vmcore ex_env 8 ex_next_pkt (ex_world [(8, ex_client)])) 8 =
     Some (ex_client\<lparr>any_data_rcvd := True, vmcorebuf := replicate 32 1,
                      vmcoreoff := 131040, vmcorebufoff := 32\<rparr>)"
proof -
  note h = ex_client_simps(1,2) ex_full_simps(3,4)
  have "take (unat (mh_len (hdr ex_next_pkt))) (pdata ex_next_pkt) = replicate 32 1"
    "mh_offset (hdr ex_next_pkt) = 131040" "ucast (mh_len (hdr ex_next_pkt)) = (32 :: 64 word)"
    by (simp_all add: ex_next_pkt_def)
  with vmcore_stage_rules [OF h] show ?thesis
    using h by (simp add: Let_def ex_client_simps(3))
qed

text \<open>
  C2 as the spec words it fails: the buffer holds 131040 bytes from offset 0 on, the
  packet continues them at offset 131040 and its 32 bytes fit within the 131072 bytes of
  the buffer, and still the buffer is flushed before the packet is staged, because
  131040 + 1456 exceeds the capacity.
\<close>

theorem vmcore_fitting_packet_flushed:
  "vmcorebufoff ex_full_client \<noteq> 0 \<and>
   vmcoreoff ex_full_client + vmcorebufoff ex_full_client = mh_offset (hdr ex_next_pkt) \<and>
   unat (vmcorebufoff ex_full_client) + unat (mh_len (hdr ex_next_pkt)) \<le> VMCORE_BUFSZ \<and>
   new_events (ex_world [(8, ex_full_client)])
     (handle_vmcore ex_env 8 ex_next_pkt (ex_world [(8, ex_full_client)])) =
     [EvPwrite 6 (replicate 131040 0) 131040 0 131040, EvSend 7 91 True]"
proof -
  let ?c = "ex_full_client\<lparr>any_data_rcvd := True\<rparr>"
  let ?w = "ex_world [(8, ex_full_client)]"
  have nf: "need_flush ex_env ?c ex_next_pkt"
    by (simp add: need_flush_def ex_env_def ex_full_client_def ex_client_def VMCORE_BUFSZ_def)
  have ok: "flush_result ex_env ?c (pos ?w) = sint (vmcorebufoff ex_full_client)"
    by (simp add: flush_result_def ex_env_def ex_full_client_def ex_client_def)
  have fit: "unat (vmcorebufoff (ex_full_client\<lparr>any_data_rcvd := True, vmcorebufoff := 0\<rparr>)) +
               unat (mh_len (hdr ex_next_pkt)) \<le> VMCORE_BUFSZ"
    by (simp add: ex_next_pkt_def VMCORE_BUFSZ_def)
  note hv = handle_vmcore_flushed [OF ex_full_simps(2) nf ok stage_fits(1) [OF fit]]
  have "trace (handle_vmcore ex_env 8 ex_next_pkt ?w) =
          trace ?w @ [EvPwrite 6 (replicate 131040 0) 131040 0 131040, EvSend 7 91 True]"
    by (simp add: hv flush_write_def)
       (simp add: ex_full_client_def ex_client_def ex_next_pkt_def ex_env_def)
  then have "new_events ?w (handle_vmcore ex_env 8 ex_next_pkt ?w) =
          [EvPwrite 6 (replicate 131040 0) 131040 0 131040, EvSend 7 91 True]"
    by (rule new_events_append)
  then show ?thesis
    by (simp add: ex_full_client_def ex_client_def ex_next_pkt_def VMCORE_BUFSZ_def)
qed

subsection \<open>Finishing a dump\<close>

lemma g_clients_set_client:
  "g_clients (set_client p c w) = map (\<lambda>(q, d). if q = p then (q, c) else (q, d)) (g_clients w)"
  by (simp add: set_client_def)

lemma filter_replace:
  "filter (\<lambda>(q, d). q \<noteq> p) (map (\<lambda>(q, d). if q = p then (q, c) else (q, d)) cs) =
   filter (\<lambda>(q, d). q \<noteq> p) cs"
  by (induction cs) auto

lemma replace_last_simps:
  "g_clients (snd (replace_last E t l w)) = g_clients w"
  "fault (snd (replace_last E t l w)) = fault w"
  "g_caphandler (snd (replace_last E t l w)) = g_caphandler w"
  "g_now (snd (replace_last E t l w)) = g_now w"
  "g_last_timeout_check (snd (replace_last E t l w)) = g_last_timeout_check w"
  "g_sock (snd (replace_last E t l w)) = g_sock w"
  "client_at (snd (replace_last E t l w)) p = client_at w p"
  by (simp_all add: replace_last_def Let_def)

lemma replace_last_trace:
  "trace (snd (replace_last E t l w)) = trace w @ link_events E t l (pos w)"
  "pos (snd (replace_last E t l w)) = pos w + length (link_events E t l (pos w))"
  "fst (replace_last E t l w) = link_ok E t l (pos w)"
  by (simp_all add: replace_last_def link_events_def link_ok_def Let_def pos_def)

lemma link_events_facts:
  "(\<exists>e \<in> set (link_events E t l n). link_failure e) \<longleftrightarrow> \<not> link_ok E t l n"
  "\<not> link_ok E t l n \<Longrightarrow> link_failure (last (link_events E t l n))"
  "\<forall>e \<in> set (link_events E t l n). \<not> is_send e \<and> \<not> is_handler e \<and> \<not> is_pwrite e \<and>
      \<not> is_success e \<and> e \<noteq> EvPinfo f s"
  "acks (link_events E t l n) = []"
  "link_events E t l n \<noteq> []"
  by (auto simp: link_events_def link_ok_def)

lemma acks_append: "acks (xs @ ys) = acks xs @ acks ys"
  by (induction xs rule: acks.induct) simp_all

lemma finish_link_events_facts:
  "(\<exists>e \<in> set (finish_link_events E c n). link_failure e) \<longleftrightarrow> \<not> finish_links_ok E c n"
  "\<not> finish_links_ok E c n \<Longrightarrow> link_failure (last (finish_link_events E c n))"
  "\<forall>e \<in> set (finish_link_events E c n). \<not> is_send e \<and> \<not> is_handler e \<and> \<not> is_pwrite e \<and>
      \<not> is_success e \<and> e \<noteq> EvPinfo f s"
  "acks (finish_link_events E c n) = []"
  "finish_link_events E c n \<noteq> []"
proof -
  let ?ok1 = "link_ok E (corefilename c) (vmcore_last E c) n"
  show "(\<exists>e \<in> set (finish_link_events E c n). link_failure e) \<longleftrightarrow> \<not> finish_links_ok E c n"
    by (cases ?ok1)
       (simp_all add: finish_link_events_def finish_links_ok_def bex_Un link_events_facts(1))
  show "\<not> finish_links_ok E c n \<Longrightarrow> link_failure (last (finish_link_events E c n))"
    by (cases ?ok1)
       (simp_all add: finish_link_events_def finish_links_ok_def link_events_facts(2,5))
  show "\<forall>e \<in> set (finish_link_events E c n). \<not> is_send e \<and> \<not> is_handler e \<and> \<not> is_pwrite e \<and>
      \<not> is_success e \<and> e \<noteq> EvPinfo f s"
    using link_events_facts(3) [of E _ _ _ f s]
    by (cases ?ok1) (simp_all add: finish_link_events_def ball_Un)
  show "acks (finish_link_events E c n) = []"
    by (simp add: finish_link_events_def acks_append link_events_facts(4))
  show "finish_link_events E c n \<noteq> []"
    by (simp add: finish_link_events_def link_events_facts(5))
qed

lemma handle_finish_flush_failed:
  assumes "client_at w p = Some c" "flush_result E c (pos w) \<noteq> sint (vmcorebufoff c)"
  shows "handle_finish E p pkt w = snd (vmcore_flush E p w)"
  using vmcore_flush_failed(1) [OF assms]
  by (auto simp: handle_finish_def split: prod.splits)

lemma handle_finish_flushed:
  assumes "client_at w p = Some c" "flush_result E c (pos w) = sint (vmcorebufoff c)"
  defines "c' \<equiv> c\<lparr>vmcorebufoff := 0\<rparr>"
  defines "n \<equiv> pos w + 2"
  defines "m \<equiv> n + length (finish_link_events E c' n)"
  shows "trace (handle_finish E p pkt w) =
           trace w @ flush_write c (sint (vmcorebufoff c)) # EvFsync (corefd c) #
             finish_link_events E c' n @
             (if finish_links_ok E c' n
              then finish_done_events E (g_caphandler w) p c' (mh_seqno (hdr pkt)) m else [])"
    and "client_at (handle_finish E p pkt w) q =
           (if q = p then (if finish_links_ok E c' n then None else Some c')
            else client_at w q)"
    and "fault (handle_finish E p pkt w) = fault w"
    and "g_caphandler (handle_finish E p pkt w) = g_caphandler w"
    and "g_now (handle_finish E p pkt w) = g_now w"
    and "g_last_timeout_check (handle_finish E p pkt w) = g_last_timeout_check w"
    and "g_sock (handle_finish E p pkt w) = g_sock w"
    and "g_clients (handle_finish E p pkt w) =
           (if finish_links_ok E c' n then filter (\<lambda>(q, d). q \<noteq> p) (g_clients w)
            else map (\<lambda>(q, d). if q = p then (q, c') else (q, d)) (g_clients w))"
proof -
  let ?w2 = "emit (EvFsync (corefd c))
               (set_client p c' (emit (flush_write c (sint (vmcorebufoff c))) w))"
  let ?r1 = "replace_last E (corefilename c') (vmcore_last E c') ?w2"
  let ?r2 = "replace_last E (infofilename c') (info_last E c') (snd ?r1)"
  let ?w5 = "exec_handler E c' ''success''
               (send_ack E c' (mh_seqno (hdr pkt))
                  (emit (EvPinfo (infofile c') ''Dump complete\<newline>'') (snd ?r2)))"
  have eq: "handle_finish E p pkt w =
              (if \<not> fst ?r1 then snd ?r1
               else if \<not> fst ?r2 then snd ?r2 else free_client E p ?w5)"
    using assms(1)
    by (simp add: handle_finish_def vmcore_flush_ok [OF assms(1,2)] Let_def case_prod_beta
          c'_def vmcore_last_def info_last_def)
  have p2: "pos ?w2 = n" by (simp add: n_def)
  have ok1: "fst ?r1 = link_ok E (corefilename c') (vmcore_last E c') n"
    by (simp only: replace_last_trace(3) p2)
  have p3: "pos (snd ?r1) = n + length (link_events E (corefilename c') (vmcore_last E c') n)"
    by (simp only: replace_last_trace(2) p2)
  have ok2: "fst ?r2 = link_ok E (infofilename c') (info_last E c')
                (n + length (link_events E (corefilename c') (vmcore_last E c') n))"
    by (simp only: replace_last_trace(3) p3)
  have t1: "trace (snd ?r1) = trace w @ flush_write c (sint (vmcorebufoff c)) #
              EvFsync (corefd c) # link_events E (corefilename c') (vmcore_last E c') n"
    by (simp only: replace_last_trace(1) p2) simp
  have t2: "trace (snd ?r2) = trace w @ flush_write c (sint (vmcorebufoff c)) #
              EvFsync (corefd c) # link_events E (corefilename c') (vmcore_last E c') n @
              link_events E (infofilename c') (info_last E c')
                (n + length (link_events E (corefilename c') (vmcore_last E c') n))"
    by (simp only: replace_last_trace(1) [of E _ _ "snd ?r1"] p3 t1) simp
  have c5: "client_at ?w5 p = Some c'"
    using assms(1) by (simp add: replace_last_simps)
  note fc = free_client_simps [OF c5, of E]
  consider (a) "\<not> fst ?r1" | (b) "fst ?r1" "\<not> fst ?r2" | (c) "fst ?r1" "fst ?r2"
    by blast
  then have
    "trace (handle_finish E p pkt w) =
           trace w @ flush_write c (sint (vmcorebufoff c)) # EvFsync (corefd c) #
             finish_link_events E c' n @
             (if finish_links_ok E c' n
              then finish_done_events E (g_caphandler w) p c' (mh_seqno (hdr pkt)) m else []) \<and>
     (\<forall>q. client_at (handle_finish E p pkt w) q =
           (if q = p then (if finish_links_ok E c' n then None else Some c')
            else client_at w q)) \<and>
     fault (handle_finish E p pkt w) = fault w \<and>
     g_caphandler (handle_finish E p pkt w) = g_caphandler w \<and>
     g_now (handle_finish E p pkt w) = g_now w \<and>
     g_last_timeout_check (handle_finish E p pkt w) = g_last_timeout_check w \<and>
     g_sock (handle_finish E p pkt w) = g_sock w \<and>
     g_clients (handle_finish E p pkt w) =
           (if finish_links_ok E c' n then filter (\<lambda>(q, d). q \<noteq> p) (g_clients w)
            else map (\<lambda>(q, d). if q = p then (q, c') else (q, d)) (g_clients w))"
  proof cases
    case a
    then have nk: "\<not> finish_links_ok E c' n" using ok1 by (simp add: finish_links_ok_def)
    have fl: "finish_link_events E c' n = link_events E (corefilename c') (vmcore_last E c') n"
      using a ok1 by (simp add: finish_link_events_def)
    show ?thesis
      using a assms(1) by (simp add: eq nk fl t1 replace_last_simps g_clients_set_client)
  next
    case b
    then have nk: "\<not> finish_links_ok E c' n" using ok1 ok2 by (simp add: finish_links_ok_def)
    have fl: "finish_link_events E c' n =
                link_events E (corefilename c') (vmcore_last E c') n @
                link_events E (infofilename c') (info_last E c')
                  (n + length (link_events E (corefilename c') (vmcore_last E c') n))"
      using b ok1 by (simp add: finish_link_events_def)
    show ?thesis
      using b assms(1) by (simp add: eq nk fl t2 replace_last_simps g_clients_set_client)
  next
    case c
    then have k: "finish_links_ok E c' n" using ok1 ok2 by (simp add: finish_links_ok_def)
    have fl: "finish_link_events E c' n =
                link_events E (corefilename c') (vmcore_last E c') n @
                link_events E (infofilename c') (info_last E c')
                  (n + length (link_events E (corefilename c') (vmcore_last E c') n))"
      using c ok1 by (simp add: finish_link_events_def)
    have p4: "pos (snd ?r2) = m"
      by (simp only: replace_last_trace(2) [of E _ _ "snd ?r1"] p3) (simp add: m_def fl)
    have g: "g_clients (snd ?r2) =
               map (\<lambda>(q, d). if q = p then (q, c') else (q, d)) (g_clients w)"
      by (simp add: replace_last_simps g_clients_set_client)
    note ff = filter_replace [of p c' "g_clients w"]
    show ?thesis
      using c assms(1)
      by (simp add: eq k fl fc t2 p4 ff replace_last_simps g_clients_set_client
            finish_done_events_def)
  qed
  then show "trace (handle_finish E p pkt w) =
           trace w @ flush_write c (sint (vmcorebufoff c)) # EvFsync (corefd c) #
             finish_link_events E c' n @
             (if finish_links_ok E c' n
              then finish_done_events E (g_caphandler w) p c' (mh_seqno (hdr pkt)) m else [])"
    and "client_at (handle_finish E p pkt w) q =
           (if q = p then (if finish_links_ok E c' n then None else Some c')
            else client_at w q)"
    and "fault (handle_finish E p pkt w) = fault w"
    and "g_caphandler (handle_finish E p pkt w) = g_caphandler w"
    and "g_now (handle_finish E p pkt w) = g_now w"
    and "g_last_timeout_check (handle_finish E p pkt w) = g_last_timeout_check w"
    and "g_sock (handle_finish E p pkt w) = g_sock w"
    and "g_clients (handle_finish E p pkt w) =
           (if finish_links_ok E c' n then filter (\<lambda>(q, d). q \<noteq> p) (g_clients w)
            else map (\<lambda>(q, d). if q = p then (q, c') else (q, d)) (g_clients w))"
    by simp_all
qed


lemma free_events_facts:
  "\<forall>e \<in> set (free_events E p c n). \<not> is_send e \<and> \<not> is_handler e \<and> \<not> link_failure e \<and>
      \<not> is_pwrite e \<and> \<not> is_success e \<and> e \<noteq> EvPinfo f s"
  "acks (free_events E p c n) = []"
  by (simp_all add: free_events_def)

lemma handler_events_facts:
  "\<forall>e \<in> set (handler_events E g c r n). \<not> is_send e \<and> \<not> link_failure e \<and>
      \<not> is_pwrite e \<and> (is_success e \<longrightarrow> r = ''success'') \<and> e \<noteq> EvPinfo f s"
  "acks (handler_events E g c r n) = []"
  by (simp_all add: handler_events_def)

lemma flush_failure_events_facts:
  "\<forall>e \<in> set (flush_failure_events E g p c n). \<not> is_send e \<and> \<not> link_failure e \<and>
      \<not> is_pwrite e \<and> \<not> is_success e"
  "acks (flush_failure_events E g p c n) = []"
  using free_events_facts(1) [of E p c] handler_events_facts(1) [of E g c "''error''"]
  by (auto simp: flush_failure_events_def acks_append free_events_facts(2)
        handler_events_facts(2))

lemma finish_done_events_facts:
  "\<forall>e \<in> set (finish_done_events E g p c seqno n). \<not> link_failure e \<and> \<not> is_pwrite e"
  "acks (finish_done_events E g p c seqno n) = [(sock c, seqno)]"
  using free_events_facts(1) [of E p c] handler_events_facts(1) [of E g c "''success''"]
  by (auto simp: finish_done_events_def acks_append free_events_facts(2)
        handler_events_facts(2))

text \<open>The events of \<open>handle_finish\<close>, path by path.\<close>

lemma handle_finish_events:
  assumes "client_at w p = Some c"
  shows "new_events w (handle_finish E p pkt w) =
           (if flush_result E c (pos w) \<noteq> sint (vmcorebufoff c)
            then flush_write c (flush_result E c (pos w)) #
                   flush_failure_events E (g_caphandler w) p c (Suc (pos w))
            else flush_write c (sint (vmcorebufoff c)) # EvFsync (corefd c) #
                   finish_link_events E (c\<lparr>vmcorebufoff := 0\<rparr>) (pos w + 2) @
                   (if finish_links_ok E (c\<lparr>vmcorebufoff := 0\<rparr>) (pos w + 2)
                    then finish_done_events E (g_caphandler w) p (c\<lparr>vmcorebufoff := 0\<rparr>)
                           (mh_seqno (hdr pkt))
                           (pos w + 2 +
                            length (finish_link_events E (c\<lparr>vmcorebufoff := 0\<rparr>) (pos w + 2)))
                    else []))"
proof (cases "flush_result E c (pos w) = sint (vmcorebufoff c)")
  case True
  show ?thesis
    using handle_finish_flushed(1) [OF assms(1) True, of pkt] True
    by simp
next
  case False
  show ?thesis
    using vmcore_flush_failed(2) [OF assms(1) False] False
    by (simp add: handle_finish_flush_failed [OF assms(1) False])
qed

subsection \<open>The kernel dump header\<close>

lemma foldl_emit:
  "trace (foldl (\<lambda>v l. emit (f l) v) w ls) = trace w @ map f ls"
  "pos (foldl (\<lambda>v l. emit (f l) v) w ls) = pos w + length ls"
  "g_clients (foldl (\<lambda>v l. emit (f l) v) w ls) = g_clients w"
  "fault (foldl (\<lambda>v l. emit (f l) v) w ls) = fault w"
  "g_caphandler (foldl (\<lambda>v l. emit (f l) v) w ls) = g_caphandler w"
  "g_now (foldl (\<lambda>v l. emit (f l) v) w ls) = g_now w"
  "g_last_timeout_check (foldl (\<lambda>v l. emit (f l) v) w ls) = g_last_timeout_check w"
  "g_sock (foldl (\<lambda>v l. emit (f l) v) w ls) = g_sock w"
  "client_at (foldl (\<lambda>v l. emit (f l) v) w ls) p = client_at w p"
  by (induction ls arbitrary: w) simp_all

lemma map_fst_replace:
  "map fst (map (\<lambda>(q, d). if q = p then (q, c) else (q, d)) cs) = map fst cs"
  by (induction cs) auto

lemma keys_set_client [simp]:
  "map fst (g_clients (set_client p c w)) = map fst (g_clients w)"
  by (simp only: g_clients_set_client map_fst_replace)

lemma handle_kdh_simps:
  assumes "client_at w p = Some c"
  shows "trace (handle_kdh E p pkt w) = trace w @ kdh_events E c pkt (pos w)"
    and "client_at (handle_kdh E p pkt w) q =
           (if q = p then Some (c\<lparr>any_data_rcvd := True\<rparr>) else client_at w q)"
    and "fault (handle_kdh E p pkt w) = fault w"
    and "g_caphandler (handle_kdh E p pkt w) = g_caphandler w"
    and "g_now (handle_kdh E p pkt w) = g_now w"
    and "g_last_timeout_check (handle_kdh E p pkt w) = g_last_timeout_check w"
    and "g_sock (handle_kdh E p pkt w) = g_sock w"
    and "map fst (g_clients (handle_kdh E p pkt w)) = map fst (g_clients w)"
  using assms
  by (simp_all add: handle_kdh_def kdh_events_def Let_def foldl_emit)


subsection \<open>A data packet, path by path\<close>

lemma handle_vmcore_paths:
  assumes "client_at w p = Some c0" and "unat (vmcorebufoff c0) \<le> VMCORE_BUFSZ"
    and "unat (mh_len (hdr pkt)) \<le> NETDUMP_DATASIZE E"
    and "NETDUMP_DATASIZE E \<le> VMCORE_BUFSZ"
  defines "c \<equiv> c0\<lparr>any_data_rcvd := True\<rparr>"
  shows "trace (handle_vmcore E p pkt w) = trace w @
           (if \<not> need_flush E c pkt
            then [EvSend (sock c0) (mh_seqno (hdr pkt))
                    (e_send E (pos w) (sock c0) (mh_seqno (hdr pkt)))]
            else if flush_result E c (pos w) = sint (vmcorebufoff c0)
            then [flush_write c (sint (vmcorebufoff c0)),
                  EvSend (sock c0) (mh_seqno (hdr pkt))
                    (e_send E (Suc (pos w)) (sock c0) (mh_seqno (hdr pkt)))]
            else flush_write c (flush_result E c (pos w)) #
                   flush_failure_events E (g_caphandler w) p c (Suc (pos w)))"
    and "client_at (handle_vmcore E p pkt w) q =
           (if q \<noteq> p then client_at w q
            else if need_flush E c pkt \<and> flush_result E c (pos w) \<noteq> sint (vmcorebufoff c0)
            then None
            else stage (if need_flush E c pkt then c\<lparr>vmcorebufoff := 0\<rparr> else c) pkt)"
    and "map fst (g_clients (handle_vmcore E p pkt w)) =
           (if need_flush E c pkt \<and> flush_result E c (pos w) \<noteq> sint (vmcorebufoff c0)
            then map fst (filter (\<lambda>(q, d). q \<noteq> p) (g_clients w))
            else map fst (g_clients w))"
    and "g_caphandler (handle_vmcore E p pkt w) = g_caphandler w"
    and "g_now (handle_vmcore E p pkt w) = g_now w"
    and "g_last_timeout_check (handle_vmcore E p pkt w) = g_last_timeout_check w"
    and "g_sock (handle_vmcore E p pkt w) = g_sock w"
proof -
  have f0: "unat (vmcorebufoff c) \<le> VMCORE_BUFSZ" using assms(2) by (simp add: c_def)
  have "trace (handle_vmcore E p pkt w) = trace w @
           (if \<not> need_flush E c pkt
            then [EvSend (sock c0) (mh_seqno (hdr pkt))
                    (e_send E (pos w) (sock c0) (mh_seqno (hdr pkt)))]
            else if flush_result E c (pos w) = sint (vmcorebufoff c0)
            then [flush_write c (sint (vmcorebufoff c0)),
                  EvSend (sock c0) (mh_seqno (hdr pkt))
                    (e_send E (Suc (pos w)) (sock c0) (mh_seqno (hdr pkt)))]
            else flush_write c (flush_result E c (pos w)) #
                   flush_failure_events E (g_caphandler w) p c (Suc (pos w))) \<and>
        (\<forall>q. client_at (handle_vmcore E p pkt w) q =
           (if q \<noteq> p then client_at w q
            else if need_flush E c pkt \<and> flush_result E c (pos w) \<noteq> sint (vmcorebufoff c0)
            then None
            else stage (if need_flush E c pkt then c\<lparr>vmcorebufoff := 0\<rparr> else c) pkt)) \<and>
        map fst (g_clients (handle_vmcore E p pkt w)) =
           (if need_flush E c pkt \<and> flush_result E c (pos w) \<noteq> sint (vmcorebufoff c0)
            then map fst (filter (\<lambda>(q, d). q \<noteq> p) (g_clients w))
            else map fst (g_clients w)) \<and>
        g_caphandler (handle_vmcore E p pkt w) = g_caphandler w \<and>
        g_now (handle_vmcore E p pkt w) = g_now w \<and>
        g_last_timeout_check (handle_vmcore E p pkt w) = g_last_timeout_check w \<and>
        g_sock (handle_vmcore E p pkt w) = g_sock w"
  proof (cases "need_flush E c pkt")
    case False
    have fit: "unat (vmcorebufoff c) + unat (mh_len (hdr pkt)) \<le> VMCORE_BUFSZ"
      using no_flush_room [OF False f0 assms(4)] assms(3) by simp
    note st = stage_fits(1) [OF fit]
    note hv = handle_vmcore_noflush [OF assms(1) False [unfolded c_def] st [unfolded c_def]]
    have "trace (handle_vmcore E p pkt w) =
            trace w @ [EvSend (sock c0) (mh_seqno (hdr pkt))
                         (e_send E (pos w) (sock c0) (mh_seqno (hdr pkt)))]"
      by (simp add: hv)
    then show ?thesis
      using False assms(1) st
      by (simp add: hv c_def)
  next
    case True
    show ?thesis
    proof (cases "flush_result E c (pos w) = sint (vmcorebufoff c0)")
      case ok: True
      let ?z = "c0\<lparr>any_data_rcvd := True, vmcorebufoff := 0\<rparr>"
      have fit: "unat (vmcorebufoff ?z) + unat (mh_len (hdr pkt)) \<le> VMCORE_BUFSZ"
        using assms(3,4) by simp
      note st = stage_fits(1) [OF fit]
      note hv = handle_vmcore_flushed [OF assms(1) True [unfolded c_def] ok [unfolded c_def] st]
      have "trace (handle_vmcore E p pkt w) =
              trace w @ [flush_write c (sint (vmcorebufoff c0)),
                  EvSend (sock c0) (mh_seqno (hdr pkt))
                    (e_send E (Suc (pos w)) (sock c0) (mh_seqno (hdr pkt)))]"
        by (simp add: hv c_def)
      then show ?thesis
        using True ok assms(1) st
        by (simp add: hv c_def)
    next
      case bad: False
      have c1: "client_at (set_client p c w) p = Some c" using assms(1) by simp
      have b': "flush_result E c (pos (set_client p c w)) \<noteq> sint (vmcorebufoff c)"
        using bad by (simp add: c_def)
      note hv = handle_vmcore_failed [OF assms(1) True [unfolded c_def] bad [unfolded c_def]]
      note ff = vmcore_flush_failed [OF c1 b']
      have "trace (handle_vmcore E p pkt w) =
              trace w @ flush_write c (flush_result E c (pos w)) #
                flush_failure_events E (g_caphandler w) p c (Suc (pos w))"
        using ff(2) by (simp add: hv c_def)
      then show ?thesis
        using True bad ff(3,5,6,7,8,9)
        by (simp add: hv c_def [symmetric] g_clients_set_client filter_replace)
    qed
  qed
  then show "trace (handle_vmcore E p pkt w) = trace w @
           (if \<not> need_flush E c pkt
            then [EvSend (sock c0) (mh_seqno (hdr pkt))
                    (e_send E (pos w) (sock c0) (mh_seqno (hdr pkt)))]
            else if flush_result E c (pos w) = sint (vmcorebufoff c0)
            then [flush_write c (sint (vmcorebufoff c0)),
                  EvSend (sock c0) (mh_seqno (hdr pkt))
                    (e_send E (Suc (pos w)) (sock c0) (mh_seqno (hdr pkt)))]
            else flush_write c (flush_result E c (pos w)) #
                   flush_failure_events E (g_caphandler w) p c (Suc (pos w)))"
    and "client_at (handle_vmcore E p pkt w) q =
           (if q \<noteq> p then client_at w q
            else if need_flush E c pkt \<and> flush_result E c (pos w) \<noteq> sint (vmcorebufoff c0)
            then None
            else stage (if need_flush E c pkt then c\<lparr>vmcorebufoff := 0\<rparr> else c) pkt)"
    and "map fst (g_clients (handle_vmcore E p pkt w)) =
           (if need_flush E c pkt \<and> flush_result E c (pos w) \<noteq> sint (vmcorebufoff c0)
            then map fst (filter (\<lambda>(q, d). q \<noteq> p) (g_clients w))
            else map fst (g_clients w))"
    and "g_caphandler (handle_vmcore E p pkt w) = g_caphandler w"
    and "g_now (handle_vmcore E p pkt w) = g_now w"
    and "g_last_timeout_check (handle_vmcore E p pkt w) = g_last_timeout_check w"
    and "g_sock (handle_vmcore E p pkt w) = g_sock w"
    by simp_all
qed


lemma handle_finish_trace:
  assumes "client_at w p = Some c"
  shows "trace (handle_finish E p pkt w) = trace w @
           (if flush_result E c (pos w) \<noteq> sint (vmcorebufoff c)
            then flush_write c (flush_result E c (pos w)) #
                   flush_failure_events E (g_caphandler w) p c (Suc (pos w))
            else flush_write c (sint (vmcorebufoff c)) # EvFsync (corefd c) #
                   finish_link_events E (c\<lparr>vmcorebufoff := 0\<rparr>) (pos w + 2) @
                   (if finish_links_ok E (c\<lparr>vmcorebufoff := 0\<rparr>) (pos w + 2)
                    then finish_done_events E (g_caphandler w) p (c\<lparr>vmcorebufoff := 0\<rparr>)
                           (mh_seqno (hdr pkt))
                           (pos w + 2 +
                            length (finish_link_events E (c\<lparr>vmcorebufoff := 0\<rparr>) (pos w + 2)))
                    else []))"
proof (cases "flush_result E c (pos w) = sint (vmcorebufoff c)")
  case True
  show ?thesis
    using handle_finish_flushed(1) [OF assms(1) True, of pkt] True by simp
next
  case False
  show ?thesis
    using vmcore_flush_failed(2) [OF assms(1) False] False
    by (simp add: handle_finish_flush_failed [OF assms(1) False])
qed

subsection \<open>A read event on a client socket\<close>

text \<open>The state in which \<open>client_event\<close> calls a handler.\<close>

lemma client_event_dispatch:
  assumes "client_at w p = Some c" and "e_recv E (pos w) (sock c) = Inr (len, pkt)"
    and "HDR_SIZE E \<le> len" and "len - HDR_SIZE E = unat (mh_len (hdr pkt))"
  defines "t \<equiv> e_time E (Suc (pos w))"
  defines "w2 \<equiv> set_client p (c\<lparr>last_msg := t\<rparr>)
                  (emit (EvTime t) (emit (EvRecv (sock c) (Inr (len, pkt))) w))"
  shows "client_event E p w =
           (if mh_type (hdr pkt) = NETDUMP_KDH then handle_kdh E p pkt w2
            else if mh_type (hdr pkt) = NETDUMP_VMCORE then handle_vmcore E p pkt w2
            else if mh_type (hdr pkt) = NETDUMP_FINISHED then handle_finish E p pkt w2
            else w2)"
    and "trace w2 = trace w @ [EvRecv (sock c) (Inr (len, pkt)), EvTime t]"
    and "client_at w2 q = (if q = p then Some (c\<lparr>last_msg := t\<rparr>) else client_at w q)"
    and "pos w2 = pos w + 2"
    and "g_caphandler w2 = g_caphandler w" and "fault w2 = fault w"
    and "g_now w2 = g_now w" and "g_last_timeout_check w2 = g_last_timeout_check w"
    and "g_sock w2 = g_sock w" and "map fst (g_clients w2) = map fst (g_clients w)"
  using assms(1-4)
  by (simp_all add: client_event_def Let_def w2_def t_def)

lemma fill_inv_dispatch:
  assumes "fill_inv w" "client_at w p = Some c"
  shows "fill_inv (set_client p (c\<lparr>last_msg := t\<rparr>) (emit e1 (emit e2 w)))"
  using fill_inv_client [OF assms] assms(1) by (simp add: fill_inv_set_client)

lemma io_failure_alt: "\<not> is_pwrite e \<Longrightarrow> io_failure e = link_failure e"
  by (cases e) simp_all

lemma new_events_trans:
  "trace w2 = trace w @ a \<Longrightarrow> trace w3 = trace w2 @ b \<Longrightarrow> new_events w w3 = a @ b"
  by (simp add: new_events_def)

lemma kdh_events_facts:
  "\<forall>e \<in> set (kdh_events E c pkt n). \<not> io_failure e"
  "acks (kdh_events E c pkt n) =
     (if unat (mh_len (hdr pkt)) < KDH_SIZE E then [] else [(sock c, mh_seqno (hdr pkt))])"
  by (auto simp: kdh_events_def kdh_lines_def acks_append)


section \<open>The claim about acknowledgements\<close>

text \<open>
  C3, as the code has it. For a packet that passes the two size checks of
  \<open>client_event\<close> and is dispatched to \<open>handle_kdh\<close>, \<open>handle_vmcore\<close> or
  \<open>handle_finish\<close>, the daemon calls \<^verbatim>\<open>send\<close> for an acknowledgement at most once, on the
  socket of that client and with the sequence number of the packet; it does so exactly
  when the handler runs to its end, that is, unless the packet is a KDH shorter than the
  kernel dump header or a \<^verbatim>\<open>pwrite\<close>, \<^verbatim>\<open>unlinkat\<close> or \<^verbatim>\<open>symlinkat\<close> of the handler fails.
\<close>

theorem ack_for_dispatched_packet:
  assumes "client_at w p = Some c" and "e_recv E (pos w) (sock c) = Inr (len, pkt)"
    and "HDR_SIZE E \<le> len" and "len - HDR_SIZE E = unat (mh_len (hdr pkt))"
    and "mh_type (hdr pkt) \<in> {NETDUMP_KDH, NETDUMP_VMCORE, NETDUMP_FINISHED}"
    and "fill_inv w" and "unat (mh_len (hdr pkt)) \<le> NETDUMP_DATASIZE E"
    and "NETDUMP_DATASIZE E \<le> VMCORE_BUFSZ"
  shows "acks (new_events w (client_event E p w)) =
           (if (mh_type (hdr pkt) = NETDUMP_KDH \<and> unat (mh_len (hdr pkt)) < KDH_SIZE E) \<or>
               (\<exists>e \<in> set (new_events w (client_event E p w)). io_failure e)
            then [] else [(sock c, mh_seqno (hdr pkt))])"
proof -
  define t where "t = e_time E (Suc (pos w))"
  define w2 where "w2 = set_client p (c\<lparr>last_msg := t\<rparr>)
                  (emit (EvTime t) (emit (EvRecv (sock c) (Inr (len, pkt))) w))"
  note d = client_event_dispatch [OF assms(1-4), folded t_def, folded w2_def]
  let ?c = "c\<lparr>last_msg := t\<rparr>"
  have c2: "client_at w2 p = Some ?c" by (simp add: d(3))
  have i2: "fill_inv w2"
    unfolding w2_def by (rule fill_inv_dispatch [OF assms(6,1)])
  have f2: "unat (vmcorebufoff ?c) \<le> VMCORE_BUFSZ"
    using fill_inv_client [OF assms(6,1)] by simp
  have distinct: "NETDUMP_KDH \<noteq> NETDUMP_VMCORE" "NETDUMP_KDH \<noteq> NETDUMP_FINISHED"
    "NETDUMP_VMCORE \<noteq> NETDUMP_FINISHED"
    by (simp_all add: NETDUMP_KDH_def NETDUMP_VMCORE_def NETDUMP_FINISHED_def)
  consider (kdh) "mh_type (hdr pkt) = NETDUMP_KDH" | (vmcore) "mh_type (hdr pkt) = NETDUMP_VMCORE"
    | (finish) "mh_type (hdr pkt) = NETDUMP_FINISHED"
    using assms(5) by blast
  then show ?thesis
  proof cases
    case kdh
    have "trace (client_event E p w) = trace w2 @ kdh_events E ?c pkt (pos w2)"
      using kdh by (simp add: d(1) handle_kdh_simps(1) [OF c2])
    from new_events_trans [OF d(2) this] show ?thesis
      using kdh kdh_events_facts [of E ?c pkt "pos w2"] by simp
  next
    case vmcore
    let ?d = "?c\<lparr>any_data_rcvd := True\<rparr>"
    note hp = handle_vmcore_paths(1) [OF c2 f2 assms(7,8)]
    have tr: "trace (client_event E p w) = trace w2 @
           (if \<not> need_flush E ?d pkt
            then [EvSend (sock c) (mh_seqno (hdr pkt))
                    (e_send E (pos w2) (sock c) (mh_seqno (hdr pkt)))]
            else if flush_result E ?d (pos w2) = sint (vmcorebufoff c)
            then [flush_write ?d (sint (vmcorebufoff c)),
                  EvSend (sock c) (mh_seqno (hdr pkt))
                    (e_send E (Suc (pos w2)) (sock c) (mh_seqno (hdr pkt)))]
            else flush_write ?d (flush_result E ?d (pos w2)) #
                   flush_failure_events E (g_caphandler w2) p ?d (Suc (pos w2)))"
      using vmcore distinct hp by (simp add: d(1))
    note ne = new_events_trans [OF d(2) tr]
    note ff = flush_failure_events_facts [of E "g_caphandler w2" p ?d "Suc (pos w2)"]
    have nf: "\<forall>e \<in> set (flush_failure_events E (g_caphandler w2) p ?d (Suc (pos w2))).
                \<not> io_failure e"
      using ff(1) by (auto simp: io_failure_alt)
    show ?thesis
      using vmcore distinct nf ff(2) by (simp add: ne flush_write_def)
  next
    case finish
    let ?z = "?c\<lparr>vmcorebufoff := 0\<rparr>"
    have tr: "trace (client_event E p w) = trace w2 @
           (if flush_result E ?c (pos w2) \<noteq> sint (vmcorebufoff ?c)
            then flush_write ?c (flush_result E ?c (pos w2)) #
                   flush_failure_events E (g_caphandler w2) p ?c (Suc (pos w2))
            else flush_write ?c (sint (vmcorebufoff ?c)) # EvFsync (corefd ?c) #
                   finish_link_events E ?z (pos w2 + 2) @
                   (if finish_links_ok E ?z (pos w2 + 2)
                    then finish_done_events E (g_caphandler w2) p ?z (mh_seqno (hdr pkt))
                           (pos w2 + 2 + length (finish_link_events E ?z (pos w2 + 2)))
                    else []))"
      using finish distinct handle_finish_trace [OF c2, of E pkt] by (simp add: d(1))
    note ne = new_events_trans [OF d(2) tr]
    note ff = flush_failure_events_facts [of E "g_caphandler w2" p ?c "Suc (pos w2)"]
    have nf: "\<forall>e \<in> set (flush_failure_events E (g_caphandler w2) p ?c (Suc (pos w2))).
                \<not> io_failure e"
      using ff(1) by (auto simp: io_failure_alt)
    note fl = finish_link_events_facts [of E ?z "pos w2 + 2"]
    have lf: "(\<exists>e \<in> set (finish_link_events E ?z (pos w2 + 2)). io_failure e) \<longleftrightarrow>
                \<not> finish_links_ok E ?z (pos w2 + 2)"
      using fl(1,3) by (auto simp: io_failure_alt)
    note fd = finish_done_events_facts [of E "g_caphandler w2" p ?z "mh_seqno (hdr pkt)"]
    have df: "\<forall>e \<in> set (finish_done_events E (g_caphandler w2) p ?z (mh_seqno (hdr pkt))
                 (pos w2 + 2 + length (finish_link_events E ?z (pos w2 + 2)))). \<not> io_failure e"
      using fd(1) by (auto simp: io_failure_alt)
    show ?thesis
    proof (cases "flush_result E ?c (pos w2) = sint (vmcorebufoff ?c)")
      case False
      then show ?thesis
        using finish distinct nf ff(2) by (simp add: ne flush_write_def)
    next
      case True
      show ?thesis
      proof (cases "finish_links_ok E ?z (pos w2 + 2)")
        case ok: True
        then have "\<forall>e \<in> set (finish_link_events E ?z (pos w2 + 2)). \<not> io_failure e"
          using lf by blast
        then show ?thesis
          using finish distinct True ok df fl(4) fd(2)
          by (simp add: ne flush_write_def acks_append bex_Un)
      next
        case bad: False
        then have "\<exists>e \<in> set (finish_link_events E ?z (pos w2 + 2)). io_failure e"
          using lf by blast
        then show ?thesis
          using finish distinct True bad fl(4)
          by (simp add: ne flush_write_def acks_append)
      qed
    qed
  qed
qed


lemma ex_fin_recv:
  "e_recv ex_env_fin (pos (ex_world cs)) (sock ex_client) = Inr (24, ex_fin_pkt)"
  "e_recv ex_env_fin_nolink (pos (ex_world cs)) (sock ex_client) = Inr (24, ex_fin_pkt)"
  "HDR_SIZE ex_env_fin \<le> 24" "HDR_SIZE ex_env_fin_nolink \<le> 24"
  "24 - HDR_SIZE ex_env_fin = unat (mh_len (hdr ex_fin_pkt))"
  "24 - HDR_SIZE ex_env_fin_nolink = unat (mh_len (hdr ex_fin_pkt))"
  "mh_type (hdr ex_fin_pkt) = NETDUMP_FINISHED"
  "unat (mh_len (hdr ex_fin_pkt)) \<le> NETDUMP_DATASIZE ex_env_fin"
  "NETDUMP_DATASIZE ex_env_fin \<le> VMCORE_BUFSZ"
  "fill_inv (ex_world [(8, ex_client)])"
  by (simp_all add: ex_env_fin_def ex_env_fin_nolink_def ex_env_nolink_def ex_env_def
        ex_fin_pkt_def VMCORE_BUFSZ_def fill_inv_def ex_world_def ex_client_def)

lemma ex_fin_nolink_events:
  "new_events (ex_world [(8, ex_client)])
     (client_event ex_env_fin_nolink 8 (ex_world [(8, ex_client)])) =
   [EvRecv 7 (Inr (24, ex_fin_pkt)), EvTime 1000, EvPwrite 6 [] 0 0 0, EvFsync 6,
    EvUnlinkat ''ok/vmcore.donor.last'' (Some ENOENT),
    EvSymlinkat ''ok/vmcore.donor.0'' ''ok/vmcore.donor.last'' (Some (EOTHER 13))]"
proof -
  let ?E = ex_env_fin_nolink and ?w = "ex_world [(8, ex_client)]"
  let ?t = "e_time ?E (Suc (pos ?w))"
  let ?w2 = "set_client 8 (ex_client\<lparr>last_msg := ?t\<rparr>)
                  (emit (EvTime ?t) (emit (EvRecv (sock ex_client) (Inr (24, ex_fin_pkt))) ?w))"
  note d = client_event_dispatch [OF ex_client_simps(1) ex_fin_recv(2,4,6)]
  have c2: "client_at ?w2 8 = Some (ex_client\<lparr>last_msg := ?t\<rparr>)"
    by (simp add: ex_client_simps(1))
  have ce: "client_event ?E 8 ?w = handle_finish ?E 8 ex_fin_pkt ?w2"
    by (simp only: d(1) ex_fin_recv(7))
       (simp add: NETDUMP_KDH_def NETDUMP_VMCORE_def NETDUMP_FINISHED_def)
  have "trace (client_event ?E 8 ?w) = trace ?w2 @
          [EvPwrite 6 [] 0 0 0, EvFsync 6,
           EvUnlinkat ''ok/vmcore.donor.last'' (Some ENOENT),
           EvSymlinkat ''ok/vmcore.donor.0'' ''ok/vmcore.donor.last'' (Some (EOTHER 13))]"
    unfolding ce
    by (subst handle_finish_trace [OF c2])
       (simp add: flush_result_def flush_write_def finish_link_events_def finish_links_ok_def
          link_events_def link_ok_def vmcore_last_def info_last_def snprintf_def
          ex_env_fin_nolink_def ex_env_nolink_def ex_env_def ex_client_def)
  from new_events_trans [OF d(2) this] show ?thesis
    by (simp add: ex_env_fin_nolink_def ex_env_nolink_def ex_env_def ex_client_def)
qed

text \<open>
  C3 as the spec words it fails: a FINISHED packet with sequence number 5 passes both
  size checks and is dispatched to \<open>handle_finish\<close>; the \<^verbatim>\<open>symlinkat\<close> for the core file
  fails, and no acknowledgement is sent.
\<close>

theorem finished_packet_not_acked:
  "e_recv ex_env_fin_nolink (pos (ex_world [(8, ex_client)])) (sock ex_client) =
     Inr (24, ex_fin_pkt) \<and>
   HDR_SIZE ex_env_fin_nolink \<le> 24 \<and>
   24 - HDR_SIZE ex_env_fin_nolink = unat (mh_len (hdr ex_fin_pkt)) \<and>
   mh_type (hdr ex_fin_pkt) = NETDUMP_FINISHED \<and>
   new_events (ex_world [(8, ex_client)])
     (client_event ex_env_fin_nolink 8 (ex_world [(8, ex_client)])) =
   [EvRecv 7 (Inr (24, ex_fin_pkt)), EvTime 1000, EvPwrite 6 [] 0 0 0, EvFsync 6,
    EvUnlinkat ''ok/vmcore.donor.last'' (Some ENOENT),
    EvSymlinkat ''ok/vmcore.donor.0'' ''ok/vmcore.donor.last'' (Some (EOTHER 13))] \<and>
   acks (new_events (ex_world [(8, ex_client)])
     (client_event ex_env_fin_nolink 8 (ex_world [(8, ex_client)]))) = []"
  by (simp only: ex_fin_nolink_events ex_fin_recv) simp

lemma ex_fin_events:
  "new_events (ex_world [(8, ex_client)])
     (client_event ex_env_fin 8 (ex_world [(8, ex_client)])) =
   [EvRecv 7 (Inr (24, ex_fin_pkt)), EvTime 1000, EvPwrite 6 [] 0 0 0, EvFsync 6,
    EvUnlinkat ''ok/vmcore.donor.last'' (Some ENOENT),
    EvSymlinkat ''ok/vmcore.donor.0'' ''ok/vmcore.donor.last'' None,
    EvUnlinkat ''ok/info.donor.last'' (Some ENOENT),
    EvSymlinkat ''ok/info.donor.0'' ''ok/info.donor.last'' None,
    EvPinfo (Some 5) ''Dump complete\<newline>'', EvSend 7 5 True,
    EvHandler ''success'' 0x0A000002 ''donor'' ''ok/info.donor.0'' ''ok/vmcore.donor.0'' 0,
    EvKeventDel 7 True, EvFclose (Some 5), EvClose 6, EvClose 7, EvFree 8]"
proof -
  let ?E = ex_env_fin and ?w = "ex_world [(8, ex_client)]"
  let ?t = "e_time ?E (Suc (pos ?w))"
  let ?w2 = "set_client 8 (ex_client\<lparr>last_msg := ?t\<rparr>)
                  (emit (EvTime ?t) (emit (EvRecv (sock ex_client) (Inr (24, ex_fin_pkt))) ?w))"
  note d = client_event_dispatch [OF ex_client_simps(1) ex_fin_recv(1,3,5)]
  have c2: "client_at ?w2 8 = Some (ex_client\<lparr>last_msg := ?t\<rparr>)"
    by (simp add: ex_client_simps(1))
  have ce: "client_event ?E 8 ?w = handle_finish ?E 8 ex_fin_pkt ?w2"
    by (simp only: d(1) ex_fin_recv(7))
       (simp add: NETDUMP_KDH_def NETDUMP_VMCORE_def NETDUMP_FINISHED_def)
  have "trace (client_event ?E 8 ?w) = trace ?w2 @
          [EvPwrite 6 [] 0 0 0, EvFsync 6,
           EvUnlinkat ''ok/vmcore.donor.last'' (Some ENOENT),
           EvSymlinkat ''ok/vmcore.donor.0'' ''ok/vmcore.donor.last'' None,
           EvUnlinkat ''ok/info.donor.last'' (Some ENOENT),
           EvSymlinkat ''ok/info.donor.0'' ''ok/info.donor.last'' None,
           EvPinfo (Some 5) ''Dump complete\<newline>'', EvSend 7 5 True,
           EvHandler ''success'' 0x0A000002 ''donor'' ''ok/info.donor.0'' ''ok/vmcore.donor.0'' 0,
           EvKeventDel 7 True, EvFclose (Some 5), EvClose 6, EvClose 7, EvFree 8]"
    unfolding ce
    by (subst handle_finish_trace [OF c2])
       (simp add: ex_world_def flush_result_def flush_write_def finish_link_events_def finish_links_ok_def
          link_events_def link_ok_def vmcore_last_def info_last_def snprintf_def
          finish_done_events_def handler_events_def free_events_def
          ex_env_fin_def ex_env_def ex_client_def ex_fin_pkt_def)
  from new_events_trans [OF d(2) this] show ?thesis
    by (simp add: ex_env_fin_def ex_env_def ex_client_def)
qed

theorem ack_for_dispatched_packet_witness:
  "client_at (ex_world [(8, ex_client)]) 8 = Some ex_client \<and>
   e_recv ex_env_fin (pos (ex_world [(8, ex_client)])) (sock ex_client) = Inr (24, ex_fin_pkt) \<and>
   HDR_SIZE ex_env_fin \<le> 24 \<and> 24 - HDR_SIZE ex_env_fin = unat (mh_len (hdr ex_fin_pkt)) \<and>
   mh_type (hdr ex_fin_pkt) \<in> {NETDUMP_KDH, NETDUMP_VMCORE, NETDUMP_FINISHED} \<and>
   fill_inv (ex_world [(8, ex_client)]) \<and>
   unat (mh_len (hdr ex_fin_pkt)) \<le> NETDUMP_DATASIZE ex_env_fin \<and>
   NETDUMP_DATASIZE ex_env_fin \<le> VMCORE_BUFSZ \<and>
   acks (new_events (ex_world [(8, ex_client)])
           (client_event ex_env_fin 8 (ex_world [(8, ex_client)]))) = [(7, 5)]"
proof -
  have ty: "mh_type (hdr ex_fin_pkt) \<in> {NETDUMP_KDH, NETDUMP_VMCORE, NETDUMP_FINISHED}"
    by (simp add: ex_fin_recv(7))
  note h = ex_client_simps(1) ex_fin_recv(1,3,5) ty ex_fin_recv(10,8,9)
  have "acks (new_events (ex_world [(8, ex_client)])
           (client_event ex_env_fin 8 (ex_world [(8, ex_client)]))) = [(7, 5)]"
    using ack_for_dispatched_packet [OF h]
    by (simp add: ex_fin_events)
  with h show ?thesis by simp
qed

subsection \<open>Creating a session\<close>

lemma alloc_files_world:
  "alloc_files E c i w = (c', w') \<Longrightarrow>
     g_clients w' = g_clients w \<and> fault w' = fault w \<and> g_now w' = g_now w \<and>
     g_last_timeout_check w' = g_last_timeout_check w \<and> g_caphandler w' = g_caphandler w \<and>
     g_sock w' = g_sock w \<and> (\<exists>evs. trace w' = trace w @ evs)"
proof (induction E c i w arbitrary: c' w' rule: alloc_files.induct)
  case (1 E c i w)
  show ?case
  proof (cases "i < MAX_DUMPS")
    case False
    then show ?thesis using "1.prems" by (simp add: alloc_files.simps)
  next
    case True
    let ?c1 = "c\<lparr>infofilename := info_name E c i, corefilename := core_name E c i\<rparr>"
    let ?r = "e_openat E (pos w) (infofilename ?c1)"
    let ?w1 = "emit (EvOpenat (infofilename ?c1) info_flags ?r) w"
    show ?thesis
    proof (cases ?r)
      case (Inl e)
      then have "alloc_files E ?c1 (i + 1) ?w1 = (c', w')"
        using "1.prems" True by (subst (asm) alloc_files.simps) (simp add: Let_def)
      from "1.IH"(1) [OF True refl refl refl Inl this] show ?thesis by auto
    next
      case (Inr fd)
      let ?ok = "e_fdopen E (pos ?w1) (int fd)"
      let ?w2 = "emit (EvFdopen (int fd) ?ok) ?w1"
      show ?thesis
      proof (cases ?ok)
        case False
        then have "alloc_files E (?c1\<lparr>infofile := None\<rparr>) (i + 1)
                     (emit (EvUnlink (infofilename ?c1)) (emit (EvClose (int fd)) ?w2)) = (c', w')"
          using "1.prems" True Inr by (subst (asm) alloc_files.simps) (simp add: Let_def)
        from "1.IH"(2) [OF True refl refl refl Inr refl refl _ this] False show ?thesis by auto
      next
        case ok: True
        let ?c2 = "?c1\<lparr>infofile := Some (int fd)\<rparr>"
        let ?r2 = "e_openat E (pos ?w2) (corefilename ?c2)"
        let ?w3 = "emit (EvOpenat (corefilename ?c2) core_flags ?r2) ?w2"
        show ?thesis
        proof (cases ?r2)
          case (Inl e)
          then have "alloc_files E (?c2\<lparr>infofile := None\<rparr>) (i + 1)
                     (emit (EvUnlink (infofilename ?c2)) (emit (EvFclose (infofile ?c2)) ?w3)) =
                     (c', w')"
            using "1.prems" True Inr ok by (subst (asm) alloc_files.simps) (simp add: Let_def)
          from "1.IH"(3) [OF True refl refl refl Inr refl refl _ refl refl refl Inl this] ok
          show ?thesis by auto
        next
          case r2: (Inr fd2)
          then have "w' = ?w3"
            using "1.prems" True Inr ok by (subst (asm) alloc_files.simps) (simp add: Let_def)
          then show ?thesis by simp
        qed
      qed
    qed
  qed
qed


lemma same_session_names:
  "same_session c c' \<Longrightarrow> info_name E c' j = info_name E c j"
  "same_session c c' \<Longrightarrow> core_name E c' j = core_name E c j"
  by (simp_all add: same_session_def info_name_def core_name_def)

lemma same_session_trans:
  "same_session a b \<Longrightarrow> same_session b c \<Longrightarrow> same_session a c"
  by (simp add: same_session_def)

lemma scan_result_names:
  "same_session c d \<Longrightarrow> scan_result E d i evs c' = scan_result E c i evs c'"
  by (simp add: scan_result_def same_session_names cong: if_cong)

lemma scan_result_done:
  "infofile c' = None \<Longrightarrow> corefd c' = - 1 \<Longrightarrow> scan_result E c MAX_DUMPS [] c'"
  unfolding scan_result_def
  by (rule exI [of _ MAX_DUMPS], rule exI [of _ "[]"]) simp

lemma scan_result_good:
  assumes "i < MAX_DUMPS" "infofilename c' = info_name E c i" "corefilename c' = core_name E c i"
    "infofile c' = Some (int fd)" "corefd c' = int fd2"
  shows "scan_result E c i (good_attempt (info_name E c i) (core_name E c i) fd fd2) c'"
  unfolding scan_result_def
  using assms by (intro exI [of _ i] exI [of _ "[]"]) auto

lemma scan_result_step:
  assumes "i < MAX_DUMPS" and "failed_attempt (info_name E c i) (core_name E c i) a"
    and "scan_result E c (Suc i) evs c'"
  shows "scan_result E c i (a @ evs) c'"
proof -
  from assms(3) obtain k atts where k: "Suc i \<le> k" "k \<le> MAX_DUMPS" "length atts = k - Suc i"
    and f: "\<forall>j < k - Suc i.
              failed_attempt (info_name E c (Suc i + j)) (core_name E c (Suc i + j)) (atts ! j)"
    and e: "if k = MAX_DUMPS then evs = concat atts \<and> infofile c' = None \<and> corefd c' = - 1
         else \<exists>fd fd2.
                evs = concat atts @ good_attempt (info_name E c k) (core_name E c k) fd fd2 \<and>
                infofilename c' = info_name E c k \<and> corefilename c' = core_name E c k \<and>
                infofile c' = Some (int fd) \<and> corefd c' = int fd2"
    unfolding scan_result_def by blast
  have "\<forall>j < k - i. failed_attempt (info_name E c (i + j)) (core_name E c (i + j))
          ((a # atts) ! j)"
  proof (intro allI impI)
    fix j assume "j < k - i"
    show "failed_attempt (info_name E c (i + j)) (core_name E c (i + j)) ((a # atts) ! j)"
    proof (cases j)
      case 0
      then show ?thesis using assms(2) by simp
    next
      case (Suc j')
      then have "j' < k - Suc i" using \<open>j < k - i\<close> by simp
      with f Suc show ?thesis by simp
    qed
  qed
  moreover have "length (a # atts) = k - i" using k by simp
  moreover have "if k = MAX_DUMPS
         then a @ evs = concat (a # atts) \<and> infofile c' = None \<and> corefd c' = - 1
         else \<exists>fd fd2.
                a @ evs = concat (a # atts) @
                  good_attempt (info_name E c k) (core_name E c k) fd fd2 \<and>
                infofilename c' = info_name E c k \<and> corefilename c' = core_name E c k \<and>
                infofile c' = Some (int fd) \<and> corefd c' = int fd2"
    using e by (cases "k = MAX_DUMPS") auto
  ultimately show ?thesis
    unfolding scan_result_def using k by (intro exI [of _ k] exI [of _ "a # atts"]) simp
qed


lemma alloc_files_scan:
  "alloc_files E c i w = (c', w') \<Longrightarrow> infofile c = None \<Longrightarrow> corefd c = - 1 \<Longrightarrow>
   i \<le> MAX_DUMPS \<Longrightarrow>
     same_session c c' \<and> (\<exists>evs. trace w' = trace w @ evs \<and> scan_result E c i evs c')"
proof (induction E c i w arbitrary: c' w' rule: alloc_files.induct)
  case (1 E c i w)
  show ?case
  proof (cases "i < MAX_DUMPS")
    case False
    then have "c' = c" "w' = w" "i = MAX_DUMPS"
      using "1.prems" by (simp_all add: alloc_files.simps)
    then show ?thesis
      using "1.prems"(2,3) scan_result_done [of c E c] by (simp add: same_session_def)
  next
    case True
    let ?c1 = "c\<lparr>infofilename := info_name E c i, corefilename := core_name E c i\<rparr>"
    let ?r = "e_openat E (pos w) (infofilename ?c1)"
    let ?w1 = "emit (EvOpenat (infofilename ?c1) info_flags ?r) w"
    have s1: "same_session c ?c1" by (simp add: same_session_def)
    have le: "i + 1 \<le> MAX_DUMPS" using True by simp
    have step: "same_session c c' \<and> (\<exists>evs. trace w' = trace w @ evs \<and> scan_result E c i evs c')"
      if rec: "alloc_files E d (i + 1) v = (c', w')" and d: "same_session c d"
        "infofile d = None" "corefd d = - 1" and v: "trace v = trace w @ a"
        and a: "failed_attempt (info_name E c i) (core_name E c i) a"
        and ih: "\<And>c' w'. alloc_files E d (i + 1) v = (c', w') \<Longrightarrow> infofile d = None \<Longrightarrow>
                   corefd d = - 1 \<Longrightarrow> i + 1 \<le> MAX_DUMPS \<Longrightarrow>
                   same_session d c' \<and>
                   (\<exists>evs. trace w' = trace v @ evs \<and> scan_result E d (i + 1) evs c')"
      for d v a
    proof -
      from ih [OF rec d(2,3) le] obtain evs where s: "same_session d c'"
        and t: "trace w' = trace v @ evs" and sc: "scan_result E d (i + 1) evs c'"
        by blast
      have "scan_result E c (Suc i) evs c'"
        using sc by (simp add: scan_result_names [OF d(1)])
      from scan_result_step [OF True a this] t v same_session_trans [OF d(1) s]
      show ?thesis by simp
    qed
    show ?thesis
    proof (cases ?r)
      case (Inl e)
      then have rec: "alloc_files E ?c1 (i + 1) ?w1 = (c', w')"
        using "1.prems"(1) True by (subst (asm) alloc_files.simps) (simp add: Let_def)
      show ?thesis
      proof (rule step [OF rec s1])
        show "infofile ?c1 = None" "corefd ?c1 = - 1" using "1.prems"(2,3) by simp_all
        show "trace ?w1 = trace w @ [EvOpenat (info_name E c i) info_flags (Inl e)]"
          using Inl by simp
        show "failed_attempt (info_name E c i) (core_name E c i)
                [EvOpenat (info_name E c i) info_flags (Inl e)]"
          by (rule failed_attempt.no_info)
      qed (rule "1.IH"(1) [OF True refl refl refl Inl])
    next
      case (Inr fd)
      let ?ok = "e_fdopen E (pos ?w1) (int fd)"
      let ?w2 = "emit (EvFdopen (int fd) ?ok) ?w1"
      show ?thesis
      proof (cases ?ok)
        case False
        let ?v = "emit (EvUnlink (infofilename ?c1)) (emit (EvClose (int fd)) ?w2)"
        have rec: "alloc_files E (?c1\<lparr>infofile := None\<rparr>) (i + 1) ?v = (c', w')"
          using "1.prems"(1) True Inr False
          by (subst (asm) alloc_files.simps) (simp add: Let_def)
        show ?thesis
        proof (rule step [OF rec])
          show "same_session c (?c1\<lparr>infofile := None\<rparr>)" by (simp add: same_session_def)
          show "infofile (?c1\<lparr>infofile := None\<rparr>) = None" "corefd (?c1\<lparr>infofile := None\<rparr>) = - 1"
            using "1.prems"(3) by simp_all
          show "trace ?v = trace w @
                  [EvOpenat (info_name E c i) info_flags (Inr fd), EvFdopen (int fd) False,
                   EvClose (int fd), EvUnlink (info_name E c i)]"
            using Inr False by simp
          show "failed_attempt (info_name E c i) (core_name E c i)
                  [EvOpenat (info_name E c i) info_flags (Inr fd), EvFdopen (int fd) False,
                   EvClose (int fd), EvUnlink (info_name E c i)]"
            by (rule failed_attempt.no_stream)
        qed (rule "1.IH"(2) [OF True refl refl refl Inr refl refl False])
      next
        case ok: True
        let ?c2 = "?c1\<lparr>infofile := Some (int fd)\<rparr>"
        let ?r2 = "e_openat E (pos ?w2) (corefilename ?c2)"
        let ?w3 = "emit (EvOpenat (corefilename ?c2) core_flags ?r2) ?w2"
        have nok: "\<not> \<not> ?ok" using ok by simp
        show ?thesis
        proof (cases ?r2)
          case (Inl e)
          let ?v = "emit (EvUnlink (infofilename ?c2)) (emit (EvFclose (infofile ?c2)) ?w3)"
          have rec: "alloc_files E (?c2\<lparr>infofile := None\<rparr>) (i + 1) ?v = (c', w')"
            using "1.prems"(1) True Inr ok Inl
            by (subst (asm) alloc_files.simps) (simp add: Let_def)
          show ?thesis
          proof (rule step [OF rec])
            show "same_session c (?c2\<lparr>infofile := None\<rparr>)" by (simp add: same_session_def)
            show "infofile (?c2\<lparr>infofile := None\<rparr>) = None"
              "corefd (?c2\<lparr>infofile := None\<rparr>) = - 1"
              using "1.prems"(3) by simp_all
            show "trace ?v = trace w @
                    [EvOpenat (info_name E c i) info_flags (Inr fd), EvFdopen (int fd) True,
                     EvOpenat (core_name E c i) core_flags (Inl e), EvFclose (Some (int fd)),
                     EvUnlink (info_name E c i)]"
              using Inr ok Inl by simp
            show "failed_attempt (info_name E c i) (core_name E c i)
                    [EvOpenat (info_name E c i) info_flags (Inr fd), EvFdopen (int fd) True,
                     EvOpenat (core_name E c i) core_flags (Inl e), EvFclose (Some (int fd)),
                     EvUnlink (info_name E c i)]"
              by (rule failed_attempt.no_core)
          qed (rule "1.IH"(3) [OF True refl refl refl Inr refl refl nok refl refl refl Inl])
        next
          case r2: (Inr fd2)
          have res: "c' = ?c2\<lparr>corefd := int fd2\<rparr>" "w' = ?w3"
            using "1.prems"(1) True Inr ok r2
            by (subst (asm) alloc_files.simps, simp add: Let_def)+
          have "trace w' = trace w @ good_attempt (info_name E c i) (core_name E c i) fd fd2"
            using Inr ok r2 by (simp add: res good_attempt_def)
          moreover have "scan_result E c i
                           (good_attempt (info_name E c i) (core_name E c i) fd fd2) c'"
            by (rule scan_result_good [OF True]) (simp_all add: res)
          moreover have "same_session c c'" by (simp add: res same_session_def)
          ultimately show ?thesis by blast
        qed
      qed
    qed
  qed
qed


lemma error_out_simps [simp]:
  "g_clients (error_out p c w) = g_clients w"
  "fault (error_out p c w) = fault w"
  "g_caphandler (error_out p c w) = g_caphandler w"
  "g_now (error_out p c w) = g_now w"
  "g_last_timeout_check (error_out p c w) = g_last_timeout_check w"
  "g_sock (error_out p c w) = g_sock w"
  "\<exists>evs. trace (error_out p c w) = trace w @ evs"
  by (simp_all add: error_out_def Let_def)

lemma scan_result_files:
  assumes "scan_result E c i evs c'" "infofile c' \<noteq> None"
  shows "\<exists>k < MAX_DUMPS. infofilename c' = info_name E c k \<and> corefilename c' = core_name E c k \<and>
           corefd c' \<noteq> - 1"
proof -
  from assms(1) obtain k atts where k: "i \<le> k" "k \<le> MAX_DUMPS"
    and e: "if k = MAX_DUMPS then evs = concat atts \<and> infofile c' = None \<and> corefd c' = - 1
         else \<exists>fd fd2.
                evs = concat atts @ good_attempt (info_name E c k) (core_name E c k) fd fd2 \<and>
                infofilename c' = info_name E c k \<and> corefilename c' = core_name E c k \<and>
                infofile c' = Some (int fd) \<and> corefd c' = int fd2"
    unfolding scan_result_def by blast
  have "k \<noteq> MAX_DUMPS" using e assms(2) by auto
  then show ?thesis using e k by (intro exI [of _ k]) auto
qed

lemma scan_result_no_files:
  assumes "scan_result E c i evs c'" "infofile c' = None"
  shows "corefd c' = - 1"
  using assms unfolding scan_result_def by (auto split: if_splits)

text \<open>What \<open>alloc_finish\<close> returns for a client that holds no files yet.\<close>

lemma alloc_finish_result:
  assumes "infofile c = None" "corefd c = - 1" "alloc_finish E p c w = (r, w')"
  shows "fault w' = fault w \<and> g_now w' = g_now w \<and>
         g_last_timeout_check w' = g_last_timeout_check w \<and> g_caphandler w' = g_caphandler w \<and>
         g_sock w' = g_sock w \<and> (\<exists>evs. trace w' = trace w @ evs) \<and>
         (case r of
            None \<Rightarrow> g_clients w' = g_clients w
          | Some q \<Rightarrow> q = p \<and> g_clients w' = (p, fst (alloc_files E c 0 w)) # g_clients w \<and>
              infofile (fst (alloc_files E c 0 w)) \<noteq> None)"
proof -
  obtain c1 w1 where af: "alloc_files E c 0 w = (c1, w1)" by (cases "alloc_files E c 0 w")
  note aw = alloc_files_world [OF af]
  from aw obtain evs where t1: "trace w1 = trace w @ evs" by blast
  show ?thesis
  proof (cases "infofile c1 = None \<or> corefd c1 = - 1")
    case True
    then have "r = None" "w' = error_out p c1 w1"
      using assms(3) af by (auto simp: alloc_finish_def)
    moreover obtain evs2 where "trace (error_out p c1 w1) = trace w1 @ evs2"
      using error_out_simps(7) by blast
    ultimately show ?thesis using aw t1 by simp
  next
    case False
    let ?ok = "e_kevent E (pos w1) (sock c1)"
    let ?w2 = "emit (EvKeventAdd (sock c1) p ?ok) w1"
    show ?thesis
    proof (cases ?ok)
      case ok: False
      then have "r = None" "w' = error_out p c1 ?w2"
        using assms(3) af False by (auto simp: alloc_finish_def Let_def)
      moreover obtain evs2 where "trace (error_out p c1 ?w2) = trace ?w2 @ evs2"
        using error_out_simps(7) by blast
      ultimately show ?thesis using aw t1 by simp
    next
      case ok: True
      then have "r = Some p" "w' = ?w2\<lparr>g_clients := (p, c1) # g_clients ?w2\<rparr>"
        using assms(3) af False by (auto simp: alloc_finish_def Let_def)
      then show ?thesis using aw t1 af False by simp
    qed
  qed
qed

text \<open>The scan, and what \<open>alloc_finish\<close> makes of its result.\<close>

lemma alloc_scan_facts:
  assumes "infofile c = None" and "corefd c = - 1"
  shows "scan_result E c 0 (new_events w (snd (alloc_files E c 0 w)))
           (fst (alloc_files E c 0 w)) \<and>
         (infofile (fst (alloc_files E c 0 w)) = None \<longrightarrow>
            fst (alloc_finish E p c w) = None \<and>
            g_clients (snd (alloc_finish E p c w)) = g_clients w) \<and>
         (fst (alloc_finish E p c w) \<noteq> None \<longrightarrow>
            fst (alloc_finish E p c w) = Some p \<and>
            g_clients (snd (alloc_finish E p c w)) = (p, fst (alloc_files E c 0 w)) # g_clients w \<and>
            (\<exists>k < MAX_DUMPS.
               infofilename (fst (alloc_files E c 0 w)) = info_name E c k \<and>
               corefilename (fst (alloc_files E c 0 w)) = core_name E c k \<and>
               infofile (fst (alloc_files E c 0 w)) \<noteq> None \<and>
               corefd (fst (alloc_files E c 0 w)) \<noteq> - 1))"
proof -
  obtain c1 w1 where af: "alloc_files E c 0 w = (c1, w1)" by (cases "alloc_files E c 0 w")
  from alloc_files_scan [OF af assms] obtain evs where t: "trace w1 = trace w @ evs"
    and sc: "scan_result E c 0 evs c1" by auto
  have ne: "new_events w w1 = evs" using t by (rule new_events_append)
  obtain r w' where fin: "alloc_finish E p c w = (r, w')" by (cases "alloc_finish E p c w")
  note res = alloc_finish_result [OF assms fin]
  have "infofile c1 = None \<longrightarrow> r = None"
    using fin af by (auto simp: alloc_finish_def)
  then have "infofile c1 = None \<longrightarrow> r = None \<and> g_clients w' = g_clients w"
    using res by auto
  moreover have "r \<noteq> None \<longrightarrow> r = Some p \<and> g_clients w' = (p, c1) # g_clients w \<and>
            (\<exists>k < MAX_DUMPS. infofilename c1 = info_name E c k \<and>
               corefilename c1 = core_name E c k \<and> infofile c1 \<noteq> None \<and> corefd c1 \<noteq> - 1)"
  proof
    assume "r \<noteq> None"
    then obtain q where q: "r = Some q" by auto
    with res af have r: "q = p" "g_clients w' = (p, c1) # g_clients w" "infofile c1 \<noteq> None"
      by simp_all
    from scan_result_files [OF sc r(3)] r q
    show "r = Some p \<and> g_clients w' = (p, c1) # g_clients w \<and>
            (\<exists>k < MAX_DUMPS. infofilename c1 = info_name E c k \<and>
               corefilename c1 = core_name E c k \<and> infofile c1 \<noteq> None \<and> corefd c1 \<noteq> - 1)"
      by auto
  qed
  ultimately show ?thesis using sc by (simp add: af fin ne)
qed

subsection \<open>What no step touches\<close>

lemma same_globals_refl [simp]: "same_globals w w"
  by (simp add: same_globals_def)

lemma same_globals_trans: "same_globals a b \<Longrightarrow> same_globals b c \<Longrightarrow> same_globals a c"
  by (simp add: same_globals_def)

lemma same_globals_basic [simp]:
  "same_globals w (emit e w)"
  "same_globals w (set_client p c w)"
  "same_globals w (raise_fault f w)"
  "same_globals w (send_ack E c n w)"
  "same_globals w (exec_handler E c r w)"
  "same_globals w (error_out p c w)"
  by (simp_all add: same_globals_def)

lemma same_globals_step:
  "same_globals w v \<Longrightarrow> same_globals w (emit e v)"
  "same_globals w v \<Longrightarrow> same_globals w (set_client p c v)"
  "same_globals w v \<Longrightarrow> same_globals w (raise_fault f v)"
  "same_globals w v \<Longrightarrow> same_globals w (send_ack E c n v)"
  "same_globals w v \<Longrightarrow> same_globals w (exec_handler E c r v)"
  "same_globals w v \<Longrightarrow> same_globals w (error_out p c v)"
  by (simp_all add: same_globals_def)

lemma same_globals_free_client: "same_globals w (free_client E p w)"
  by (cases "client_at w p") (simp_all add: free_client_simps same_globals_def, simp add: free_client_def)

lemma same_globals_handle_timeout: "same_globals w (handle_timeout E p w)"
  by (cases "client_at w p") (simp_all add: handle_timeout_simps same_globals_def, simp add: handle_timeout_def)

lemma same_globals_vmcore_flush: "same_globals w (snd (vmcore_flush E p w))"
proof (cases "client_at w p")
  case None
  then show ?thesis by (simp add: vmcore_flush_def)
next
  case (Some c)
  show ?thesis
  proof (cases "flush_result E c (pos w) = sint (vmcorebufoff c)")
    case True
    then show ?thesis by (simp add: vmcore_flush_ok [OF Some] same_globals_step)
  next
    case False
    then show ?thesis using vmcore_flush_failed [OF Some False] by (simp add: same_globals_def)
  qed
qed


lemma stage_keeps:
  "stage c pkt = Some c' \<Longrightarrow> last_msg c' = last_msg c \<and> any_data_rcvd c' = any_data_rcvd c \<and>
     sock c' = sock c \<and> ip c' = ip c"
  by (auto simp: stage_def Let_def split: if_splits)

text \<open>
  \<open>handle_vmcore\<close> leaves the globals and the other clients alone, also on the paths
  that end in a fault.
\<close>

lemma handle_vmcore_frame:
  shows "same_globals w (handle_vmcore E p pkt w)"
    and "q \<noteq> p \<Longrightarrow> client_at (handle_vmcore E p pkt w) q = client_at w q"
    and "client_at (handle_vmcore E p pkt w) p = Some c' \<Longrightarrow>
           \<exists>c. client_at w p = Some c \<and> last_msg c' = last_msg c"
proof -
  have "same_globals w (handle_vmcore E p pkt w) \<and>
        (q \<noteq> p \<longrightarrow> client_at (handle_vmcore E p pkt w) q = client_at w q) \<and>
        (client_at (handle_vmcore E p pkt w) p = Some c' \<longrightarrow>
           (\<exists>c. client_at w p = Some c \<and> last_msg c' = last_msg c))"
  proof (cases "client_at w p")
    case None
    then show ?thesis by (simp add: handle_vmcore_def vmcore_make_room_def)
  next
    case (Some c0)
    let ?c = "c0\<lparr>any_data_rcvd := True\<rparr>"
    let ?w1 = "set_client p ?c w"
    have c1: "client_at ?w1 p = Some ?c" using Some by simp
    have tail: "same_globals w (handle_vmcore E p pkt w) \<and>
        (q \<noteq> p \<longrightarrow> client_at (handle_vmcore E p pkt w) q = client_at w q) \<and>
        (client_at (handle_vmcore E p pkt w) p = Some c' \<longrightarrow>
           (\<exists>c. client_at w p = Some c \<and> last_msg c' = last_msg c))"
      if mr: "vmcore_make_room E p pkt w = (0, v)" and v: "same_globals w v"
        "\<And>q. q \<noteq> p \<Longrightarrow> client_at v q = client_at w q" "client_at v p = Some d"
        "last_msg d = last_msg c0" for v d
    proof (cases "stage d pkt")
      case None
      then have "handle_vmcore E p pkt w = raise_fault (BufferOverflow p) v"
        using mr v(3) by (simp add: handle_vmcore_def)
      then show ?thesis using v \<open>client_at w p = Some c0\<close> by (auto simp: same_globals_step)
    next
      case (Some d3)
      then have "handle_vmcore E p pkt w =
                   send_ack E d3 (mh_seqno (hdr pkt)) (set_client p d3 v)"
        using mr v(3) by (simp add: handle_vmcore_def)
      then show ?thesis
        using v \<open>client_at w p = Some c0\<close> stage_keeps [OF Some]
        by (auto simp: same_globals_step)
    qed
    show ?thesis
    proof (cases "need_flush E ?c pkt")
      case False
      then have "vmcore_make_room E p pkt w = (0, ?w1)"
        using Some by (simp add: vmcore_make_room_def Let_def)
      from tail [OF this _ _ c1] show ?thesis by simp
    next
      case True
      then have mr: "vmcore_make_room E p pkt w = vmcore_flush E p ?w1"
        using Some by (simp add: vmcore_make_room_def Let_def)
      show ?thesis
      proof (cases "flush_result E ?c (pos ?w1) = sint (vmcorebufoff ?c)")
        case ok: True
        let ?v = "set_client p (?c\<lparr>vmcorebufoff := 0\<rparr>)
                    (emit (flush_write ?c (sint (vmcorebufoff ?c))) ?w1)"
        have "vmcore_make_room E p pkt w = (0, ?v)"
          using vmcore_flush_ok [OF c1 ok] mr by simp
        from tail [OF this, of "?c\<lparr>vmcorebufoff := 0\<rparr>"] Some show ?thesis
          by (simp add: same_globals_step)
      next
        case bad: False
        note ff = vmcore_flush_failed [OF c1 bad]
        have "handle_vmcore E p pkt w = snd (vmcore_flush E p ?w1)"
          using ff(1) mr by (auto simp: handle_vmcore_def split: prod.splits)
        then show ?thesis
          using ff(5-9) by (simp add: same_globals_def)
      qed
    qed
  qed
  then show "same_globals w (handle_vmcore E p pkt w)"
    and "q \<noteq> p \<Longrightarrow> client_at (handle_vmcore E p pkt w) q = client_at w q"
    and "client_at (handle_vmcore E p pkt w) p = Some c' \<Longrightarrow>
           \<exists>c. client_at w p = Some c \<and> last_msg c' = last_msg c"
    by simp_all
qed

lemma handle_kdh_frame:
  shows "same_globals w (handle_kdh E p pkt w)"
    and "q \<noteq> p \<Longrightarrow> client_at (handle_kdh E p pkt w) q = client_at w q"
    and "client_at (handle_kdh E p pkt w) p = Some c' \<Longrightarrow>
           \<exists>c. client_at w p = Some c \<and> last_msg c' = last_msg c"
proof -
  have "same_globals w (handle_kdh E p pkt w) \<and>
        (q \<noteq> p \<longrightarrow> client_at (handle_kdh E p pkt w) q = client_at w q) \<and>
        (client_at (handle_kdh E p pkt w) p = Some c' \<longrightarrow>
           (\<exists>c. client_at w p = Some c \<and> last_msg c' = last_msg c))"
  proof (cases "client_at w p")
    case None
    then show ?thesis by (simp add: handle_kdh_def)
  next
    case (Some c)
    show ?thesis
      using handle_kdh_simps [OF Some, of E pkt] Some
      by (auto simp: same_globals_def)
  qed
  then show "same_globals w (handle_kdh E p pkt w)"
    and "q \<noteq> p \<Longrightarrow> client_at (handle_kdh E p pkt w) q = client_at w q"
    and "client_at (handle_kdh E p pkt w) p = Some c' \<Longrightarrow>
           \<exists>c. client_at w p = Some c \<and> last_msg c' = last_msg c"
    by simp_all
qed

text \<open>\<open>handle_finish\<close> moreover never sets the flag.\<close>

lemma handle_finish_frame:
  shows "same_globals w (handle_finish E p pkt w)"
    and "q \<noteq> p \<Longrightarrow> client_at (handle_finish E p pkt w) q = client_at w q"
    and "client_at (handle_finish E p pkt w) p = Some c' \<Longrightarrow>
           \<exists>c. client_at w p = Some c \<and> last_msg c' = last_msg c \<and>
                any_data_rcvd c' = any_data_rcvd c"
proof -
  have "same_globals w (handle_finish E p pkt w) \<and>
        (q \<noteq> p \<longrightarrow> client_at (handle_finish E p pkt w) q = client_at w q) \<and>
        (client_at (handle_finish E p pkt w) p = Some c' \<longrightarrow>
           (\<exists>c. client_at w p = Some c \<and> last_msg c' = last_msg c \<and>
                any_data_rcvd c' = any_data_rcvd c))"
  proof (cases "client_at w p")
    case None
    then show ?thesis by (simp add: handle_finish_def vmcore_flush_def)
  next
    case (Some c)
    show ?thesis
    proof (cases "flush_result E c (pos w) = sint (vmcorebufoff c)")
      case True
      show ?thesis
        using handle_finish_flushed [OF Some True, of pkt] Some
        by (auto simp: same_globals_def)
    next
      case False
      show ?thesis
        using vmcore_flush_failed [OF Some False]
        by (simp add: handle_finish_flush_failed [OF Some False] same_globals_def)
    qed
  qed
  then show "same_globals w (handle_finish E p pkt w)"
    and "q \<noteq> p \<Longrightarrow> client_at (handle_finish E p pkt w) q = client_at w q"
    and "client_at (handle_finish E p pkt w) p = Some c' \<Longrightarrow>
           \<exists>c. client_at w p = Some c \<and> last_msg c' = last_msg c \<and>
                any_data_rcvd c' = any_data_rcvd c"
    by simp_all
qed


lemma flag_set_simps [simp]:
  "flag_set (emit e w) q = flag_set w q"
  "flag_set (raise_fault f w) q = flag_set w q"
  "flag_set (send_ack E c n w) q = flag_set w q"
  "flag_set (exec_handler E c r w) q = flag_set w q"
  by (simp_all add: flag_set_def)

lemma client_event_frame:
  shows "same_globals w (client_event E p w)"
    and "q \<noteq> p \<Longrightarrow> client_at (client_event E p w) q = client_at w q"
    and "flag_set (client_event E p w) p \<Longrightarrow>
           flag_set w p \<or>
           (\<exists>c len pkt. client_at w p = Some c \<and> e_recv E (pos w) (sock c) = Inr (len, pkt) \<and>
              HDR_SIZE E \<le> len \<and> len - HDR_SIZE E = unat (mh_len (hdr pkt)) \<and>
              mh_type (hdr pkt) \<in> {NETDUMP_KDH, NETDUMP_VMCORE})"
proof -
  let ?accepted = "\<exists>c len pkt. client_at w p = Some c \<and>
              e_recv E (pos w) (sock c) = Inr (len, pkt) \<and>
              HDR_SIZE E \<le> len \<and> len - HDR_SIZE E = unat (mh_len (hdr pkt)) \<and>
              mh_type (hdr pkt) \<in> {NETDUMP_KDH, NETDUMP_VMCORE}"
  have "same_globals w (client_event E p w) \<and>
        (q \<noteq> p \<longrightarrow> client_at (client_event E p w) q = client_at w q) \<and>
        (flag_set (client_event E p w) p \<longrightarrow> flag_set w p \<or> ?accepted)"
  proof (cases "client_at w p")
    case None
    then show ?thesis by (simp add: client_event_def flag_set_def)
  next
    case (Some c)
    let ?r = "e_recv E (pos w) (sock c)"
    let ?w1 = "emit (EvRecv (sock c) ?r) w"
    have c1: "client_at ?w1 p = Some c" using Some by simp
    show ?thesis
    proof (cases ?r)
      case (Inl e)
      show ?thesis
      proof (cases "e \<noteq> EAGAIN \<and> e \<noteq> EINTR")
        case True
        then have "client_event E p w = handle_timeout E p ?w1"
          using Some Inl by (simp add: client_event_def Let_def)
        then show ?thesis
          using handle_timeout_simps [OF c1, of E]
          by (simp add: same_globals_def flag_set_def)
      next
        case False
        then have "client_event E p w = ?w1"
          using Some Inl by (auto simp: client_event_def Let_def)
        then show ?thesis by simp
      qed
    next
      case (Inr lp)
      obtain len pkt where lp: "lp = (len, pkt)" by (cases lp)
      show ?thesis
      proof (cases "HDR_SIZE E \<le> len \<and> len - HDR_SIZE E = unat (mh_len (hdr pkt))")
        case False
        then have "client_event E p w = ?w1"
          using Some Inr lp by (auto simp: client_event_def Let_def)
        then show ?thesis by simp
      next
        case True
        define t where "t = e_time E (Suc (pos w))"
        define w2 where "w2 = set_client p (c\<lparr>last_msg := t\<rparr>)
                  (emit (EvTime t) (emit (EvRecv (sock c) (Inr (len, pkt))) w))"
        have rv: "e_recv E (pos w) (sock c) = Inr (len, pkt)" using Inr lp by simp
        note d = client_event_dispatch [OF Some rv True [THEN conjunct1] True [THEN conjunct2],
                   folded t_def, folded w2_def]
        have g2: "same_globals w w2" by (simp add: same_globals_def d)
        have f2: "flag_set w2 p = flag_set w p"
          using Some by (simp add: flag_set_def d(3))
        have o2: "q \<noteq> p \<longrightarrow> client_at w2 q = client_at w q" by (simp add: d(3))
        have c2: "client_at w2 p = Some (c\<lparr>last_msg := t\<rparr>)" by (simp add: d(3))
        consider (kdh) "mh_type (hdr pkt) = NETDUMP_KDH"
          | (vmcore) "mh_type (hdr pkt) \<noteq> NETDUMP_KDH" "mh_type (hdr pkt) = NETDUMP_VMCORE"
          | (finish) "mh_type (hdr pkt) \<noteq> NETDUMP_KDH" "mh_type (hdr pkt) \<noteq> NETDUMP_VMCORE"
              "mh_type (hdr pkt) = NETDUMP_FINISHED"
          | (other) "mh_type (hdr pkt) \<noteq> NETDUMP_KDH" "mh_type (hdr pkt) \<noteq> NETDUMP_VMCORE"
              "mh_type (hdr pkt) \<noteq> NETDUMP_FINISHED"
          by blast
        then show ?thesis
        proof cases
          case kdh
          then have acc: ?accepted using Some rv True by auto
          show ?thesis
            using kdh handle_kdh_frame(1) [where w = w2 and E = E and p = p and pkt = pkt]
              handle_kdh_frame(2) [where w = w2 and E = E and p = p and pkt = pkt and q = q] g2 o2 acc
            by (auto simp: d(1) intro: same_globals_trans)
        next
          case vmcore
          then have acc: ?accepted using Some rv True by auto
          show ?thesis
            using vmcore handle_vmcore_frame(1) [where w = w2 and E = E and p = p and pkt = pkt]
              handle_vmcore_frame(2) [where w = w2 and E = E and p = p and pkt = pkt and q = q] g2 o2 acc
            by (auto simp: d(1) intro: same_globals_trans)
        next
          case finish
          have "flag_set (handle_finish E p pkt w2) p \<longrightarrow> flag_set w p"
          proof
            assume "flag_set (handle_finish E p pkt w2) p"
            then obtain c' where c': "client_at (handle_finish E p pkt w2) p = Some c'"
              "any_data_rcvd c'"
              by (auto simp: flag_set_def split: option.splits)
            from handle_finish_frame(3) [OF c'(1)] c2 c'(2) have "any_data_rcvd c" by auto
            then show "flag_set w p" using Some by (simp add: flag_set_def)
          qed
          then show ?thesis
            using finish handle_finish_frame(1) [where w = w2 and E = E and p = p and pkt = pkt]
              handle_finish_frame(2) [where w = w2 and E = E and p = p and pkt = pkt and q = q] g2 o2
            by (auto simp: d(1) intro: same_globals_trans)
        next
          case other
          then show ?thesis using g2 o2 f2 by (simp add: d(1))
        qed
      qed
    qed
  qed
  then show "same_globals w (client_event E p w)"
    and "q \<noteq> p \<Longrightarrow> client_at (client_event E p w) q = client_at w q"
    and "flag_set (client_event E p w) p \<Longrightarrow> flag_set w p \<or> ?accepted"
    by simp_all
qed

lemma lookup_hostname_frame:
  assumes "lookup_hostname E saddr w = (err, name, w')"
  shows "same_globals w w'" "fault w' = fault w" "g_clients w' = g_clients w"
    "\<exists>evs. trace w' = trace w @ evs"
  using assms
  by (auto simp: lookup_hostname_def Let_def same_globals_def split: prod.splits if_splits)


lemma alloc_client_unfold:
  assumes "e_calloc E (pos w) = Some p"
    and "lookup_hostname E saddr (emit (EvCalloc (Some p)) w) = (err, name, w2)"
  shows "alloc_client E sd saddr pth w =
           (if err \<noteq> 0
            then (None, error_out p
                    \<lparr>path = [], infofilename = [], corefilename = [], hostname = [],
                       last_msg = g_now w, ip = saddr, infofile = None, corefd = - 1,
                       sock = sd, any_data_rcvd = False, vmcorebufoff = 0, vmcoreoff = 0,
                       vmcorebuf = []\<rparr> w2)
            else alloc_finish E p
                   \<lparr>path = take (MAXPATHLEN E - 1) pth, infofilename = [], corefilename = [],
                      hostname = name,
                       last_msg = g_now w, ip = saddr, infofile = None, corefd = - 1,
                       sock = sd, any_data_rcvd = False, vmcorebufoff = 0, vmcoreoff = 0,
                       vmcorebuf = []\<rparr>
                   (emit (EvSetsockopt sd (e_setsockopt E (pos w2) sd)) w2))"
  unfolding alloc_client_def Let_def assms(1) option.case assms(2) prod.case
  by simp


lemma alloc_client_result:
  assumes "alloc_client E sd saddr pth w = (r, w')"
  shows "same_globals w w' \<and> fault w' = fault w \<and> (\<exists>evs. trace w' = trace w @ evs) \<and>
         (case r of
            None \<Rightarrow> g_clients w' = g_clients w
          | Some p \<Rightarrow> \<exists>c'. g_clients w' = (p, c') # g_clients w \<and> \<not> any_data_rcvd c' \<and>
              last_msg c' = g_now w \<and> ip c' = saddr \<and> sock c' = sd \<and> vmcorebufoff c' = 0 \<and>
              infofile c' \<noteq> None)"
proof (cases "e_calloc E (pos w)")
  case None
  then have "r = None" "w' = emit (EvCalloc None) w"
    using assms by (simp_all add: alloc_client_def Let_def)
  then show ?thesis by simp
next
  case (Some p)
  define c where "c = \<lparr>path = [], infofilename = [], corefilename = [], hostname = [],
                       last_msg = g_now w, ip = saddr, infofile = None, corefd = - 1,
                       sock = sd, any_data_rcvd = False, vmcorebufoff = 0, vmcoreoff = 0,
                       vmcorebuf = []\<rparr>"
  obtain err name w2 where lh: "lookup_hostname E saddr (emit (EvCalloc (Some p)) w) = (err, name, w2)"
    by (cases "lookup_hostname E saddr (emit (EvCalloc (Some p)) w)") auto
  define c2 where "c2 = \<lparr>path = take (MAXPATHLEN E - 1) pth, infofilename = [], corefilename = [],
                      hostname = name,
                       last_msg = g_now w, ip = saddr, infofile = None, corefd = - 1,
                       sock = sd, any_data_rcvd = False, vmcorebufoff = 0, vmcoreoff = 0,
                       vmcorebuf = []\<rparr>"
  define w3 where "w3 = emit (EvSetsockopt sd (e_setsockopt E (pos w2) sd)) w2"
  note eq = alloc_client_unfold [OF Some lh, of sd pth, folded c_def c2_def w3_def]
  note lf = lookup_hostname_frame [OF lh]
  have g2: "same_globals w w2" "fault w2 = fault w" "g_clients w2 = g_clients w"
    using lf by (simp_all add: same_globals_def)
  obtain evs2 where t2: "trace w2 = trace w @ evs2"
    using lf(4) by auto
  show ?thesis
  proof (cases "err \<noteq> 0")
    case True
    then have "r = None" "w' = error_out p c w2" using assms eq by simp_all
    moreover obtain evs where "trace (error_out p c w2) = trace w2 @ evs"
      using error_out_simps(7) by blast
    ultimately show ?thesis using g2 t2 by (simp add: same_globals_def)
  next
    case False
    then have fin: "alloc_finish E p c2 w3 = (r, w')" using assms eq by simp
    have n2: "infofile c2 = None" "corefd c2 = - 1" by (simp_all add: c2_def)
    note res = alloc_finish_result [OF n2 fin]
    from res obtain evs4 where t4: "trace w' = trace w3 @ evs4" by blast
    have tr: "\<exists>evs. trace w' = trace w @ evs"
      using t2 t4 by (simp add: w3_def)
    have gl: "same_globals w w'" "fault w' = fault w"
      using res g2 by (simp_all add: same_globals_def w3_def)
    show ?thesis
    proof (cases r)
      case None
      then show ?thesis using res gl tr g2(3) by (simp add: w3_def)
    next
      case (Some q)
      obtain c1 w5 where af: "alloc_files E c2 0 w3 = (c1, w5)"
        by (cases "alloc_files E c2 0 w3")
      from alloc_files_scan [OF af n2] have ss: "same_session c2 c1" by simp
      have "q = p" "g_clients w' = (p, c1) # g_clients w" "infofile c1 \<noteq> None"
        using res Some af g2(3) by (simp_all add: w3_def)
      moreover have "\<not> any_data_rcvd c1" "last_msg c1 = g_now w" "ip c1 = saddr" "sock c1 = sd"
        "vmcorebufoff c1 = 0"
        using ss by (simp_all add: same_session_def c2_def)
      ultimately show ?thesis using Some gl tr by simp
    qed
  qed
qed


lemma announce_frame:
  "same_globals w (announce E p n w)" "g_clients (announce E p n w) = g_clients w"
  by (cases "client_at w p", simp_all add: announce_def same_globals_def)
     (cases "client_at w p", simp_all add: announce_def)

lemma find_client_at:
  "find (\<lambda>(q, c). P c) cs = Some (p, c) \<Longrightarrow> distinct (map fst cs) \<Longrightarrow> map_of cs p = Some c"
proof (induction cs)
  case Nil
  then show ?case by simp
next
  case (Cons x cs)
  obtain q d where x: "x = (q, d)" by (cases x)
  show ?case
  proof (cases "P d")
    case True
    then show ?thesis using Cons.prems x by simp
  next
    case False
    then have f: "find (\<lambda>(q, c). P c) cs = Some (p, c)" using Cons.prems x by simp
    then have "(p, c) \<in> set cs" by (auto simp: find_Some_iff in_set_conv_nth)
    then have "p \<in> fst ` set cs" by force
    then have "p \<noteq> q" using Cons.prems(2) x by auto
    then show ?thesis using Cons.IH [OF f] Cons.prems(2) x by simp
  qed
qed

lemma flag_set_cons:
  "g_clients w' = (p, c) # g_clients w \<Longrightarrow> \<not> any_data_rcvd c \<Longrightarrow> flag_set w' q \<Longrightarrow> flag_set w q"
  by (auto simp: flag_set_def client_at_def split: if_splits option.splits)

lemma flag_set_same:
  "g_clients w' = g_clients w \<Longrightarrow> flag_set w' q = flag_set w q"
  by (simp add: flag_set_def client_at_def)

lemma flag_set_filter:
  "g_clients w' = filter (\<lambda>(q, d). q \<noteq> p) (g_clients w) \<Longrightarrow> flag_set w' q \<Longrightarrow> flag_set w q"
  by (auto simp: flag_set_def client_at_def map_of_remove split: if_splits option.splits)

text \<open>The four ways through \<open>server_event\<close>.\<close>

lemma server_event_herald_error:
  "e_herald E (pos w) = Inl e \<Longrightarrow> server_event E w = emit (EvHeraldCall (Inl e)) w"
  by (simp add: server_event_def Let_def)

lemma server_event_new:
  assumes "e_herald E (pos w) = Inr h"
    and "find (\<lambda>(q, c). ip c = h_saddr h) (g_clients w) = None"
  shows "server_event E w =
           (case alloc_client E (h_sd h) (h_saddr h) (h_path h) (emit (EvHeraldCall (Inr h)) w) of
              (None, w2) \<Rightarrow> w2
            | (Some p, w2) \<Rightarrow> announce E p (h_seqno h) w2)"
  using assms by (simp add: server_event_def Let_def)

lemma server_event_retransmit:
  assumes "e_herald E (pos w) = Inr h"
    and "find (\<lambda>(q, c). ip c = h_saddr h) (g_clients w) = Some (p, c)"
    and "\<not> any_data_rcvd c"
  shows "server_event E w = send_ack E c (h_seqno h) (emit (EvHeraldCall (Inr h)) w)"
  using assms by (simp add: server_event_def Let_def)

lemma server_event_supersede:
  assumes "e_herald E (pos w) = Inr h"
    and "find (\<lambda>(q, c). ip c = h_saddr h) (g_clients w) = Some (p, c)"
    and "any_data_rcvd c"
  shows "server_event E w =
           announce E p (h_seqno h) (handle_timeout E p (emit (EvHeraldCall (Inr h)) w))"
  using assms by (simp add: server_event_def Let_def)


text \<open>\<open>server_event\<close> sets no flag and keeps the globals.\<close>

lemma server_event_frame:
  shows "same_globals w (server_event E w)"
    and "flag_set (server_event E w) q \<Longrightarrow> flag_set w q"
proof -
  have "same_globals w (server_event E w) \<and> (flag_set (server_event E w) q \<longrightarrow> flag_set w q)"
  proof (cases "e_herald E (pos w)")
    case (Inl e)
    show ?thesis by (simp add: server_event_herald_error [OF Inl])
  next
    case (Inr h)
    let ?w1 = "emit (EvHeraldCall (Inr h)) w"
    show ?thesis
    proof (cases "find (\<lambda>(q, c). ip c = h_saddr h) (g_clients w)")
      case None
      obtain r w2 where ac: "alloc_client E (h_sd h) (h_saddr h) (h_path h) ?w1 = (r, w2)"
        by (cases "alloc_client E (h_sd h) (h_saddr h) (h_path h) ?w1")
      note res = alloc_client_result [OF ac]
      have g2: "same_globals w w2" using res by (simp add: same_globals_def)
      show ?thesis
      proof (cases r)
        case rn: None
        then have "server_event E w = w2"
          by (simp add: server_event_new [OF Inr None] ac)
        moreover have "g_clients w2 = g_clients w" using res rn by simp
        ultimately show ?thesis using g2 flag_set_same [of w2 w q] by simp
      next
        case (Some p)
        then have se: "server_event E w = announce E p (h_seqno h) w2"
          by (simp add: server_event_new [OF Inr None] ac)
        from res Some obtain c' where c': "g_clients w2 = (p, c') # g_clients w"
          "\<not> any_data_rcvd c'" by auto
        have "flag_set (announce E p (h_seqno h) w2) q \<longrightarrow> flag_set w q"
          using flag_set_cons [OF c', of q]
            flag_set_same [OF announce_frame(2), of E p "h_seqno h" w2 q]
          by simp
        moreover have "same_globals w (announce E p (h_seqno h) w2)"
          by (rule same_globals_trans [OF g2 announce_frame(1)])
        ultimately show ?thesis by (simp add: se)
      qed
    next
      case (Some pc)
      obtain p c where pc: "pc = (p, c)" by (cases pc)
      note fnd = Some [unfolded pc]
      show ?thesis
      proof (cases "any_data_rcvd c")
        case False
        show ?thesis
          by (simp add: server_event_retransmit [OF Inr fnd False] same_globals_step)
      next
        case True
        let ?w2 = "handle_timeout E p ?w1"
        note se = server_event_supersede [OF Inr fnd True]
        have g2: "same_globals w ?w2"
          using same_globals_handle_timeout [of ?w1 E p]
          by (simp add: same_globals_def)
        have "flag_set ?w2 q \<longrightarrow> flag_set w q"
        proof (cases "client_at ?w1 p")
          case None
          then show ?thesis by (simp add: handle_timeout_def)
        next
          case (Some d)
          from handle_timeout_simps(2) [OF Some, of E]
          have "g_clients ?w2 = filter (\<lambda>(q, d). q \<noteq> p) (g_clients w)" by simp
          from flag_set_filter [OF this] show ?thesis by blast
        qed
        then have "flag_set (announce E p (h_seqno h) ?w2) q \<longrightarrow> flag_set w q"
          using flag_set_same [OF announce_frame(2), of E p "h_seqno h" ?w2 q] by simp
        moreover have "same_globals w (announce E p (h_seqno h) ?w2)"
          by (rule same_globals_trans [OF g2 announce_frame(1)])
        ultimately show ?thesis by (simp add: se)
      qed
    qed
  qed
  then show "same_globals w (server_event E w)"
    and "flag_set (server_event E w) q \<Longrightarrow> flag_set w q"
    by simp_all
qed

subsection \<open>The sweep\<close>

lemma sweep_frame:
  "same_globals w (sweep E ps w)"
  "client_at (sweep E ps w) q = Some c \<Longrightarrow> client_at w q = Some c"
proof -
  have "same_globals w (sweep E ps w) \<and>
        (client_at (sweep E ps w) q = Some c \<longrightarrow> client_at w q = Some c)"
  proof (induction ps arbitrary: w)
    case Nil
    show ?case by simp
  next
    case (Cons p ps)
    show ?case
    proof (cases "client_at w p")
      case None
      then show ?thesis by simp
    next
      case (Some d)
      show ?thesis
      proof (cases "time_t (last_msg d + CLIENT_TIMEOUT) < g_now w")
        case True
        let ?v = "handle_timeout E p w"
        note ht = handle_timeout_simps [OF Some, of E]
        have "same_globals w ?v" by (rule same_globals_handle_timeout)
        moreover have "client_at ?v q = Some c \<longrightarrow> client_at w q = Some c"
          by (simp add: ht(8))
        ultimately show ?thesis
          using Cons.IH [of ?v] Some True by (auto intro: same_globals_trans [of w ?v])
      next
        case False
        then show ?thesis using Cons.IH [of w] Some by simp
      qed
    qed
  qed
  then show "same_globals w (sweep E ps w)"
    "client_at (sweep E ps w) q = Some c \<Longrightarrow> client_at w q = Some c"
    by simp_all
qed

lemma timeout_clients_frame:
  "g_now (timeout_clients E w) = g_now w"
  "g_caphandler (timeout_clients E w) = g_caphandler w"
  "g_sock (timeout_clients E w) = g_sock w"
  "flag_set (timeout_clients E w) q \<Longrightarrow> flag_set w q"
proof -
  let ?w1 = "w\<lparr>g_last_timeout_check := g_now w\<rparr>"
  have g: "same_globals ?w1 (sweep E (map fst (g_clients w)) ?w1)" by (rule sweep_frame(1))
  show "g_now (timeout_clients E w) = g_now w"
    "g_caphandler (timeout_clients E w) = g_caphandler w"
    "g_sock (timeout_clients E w) = g_sock w"
    using g by (simp_all add: timeout_clients_def same_globals_def)
  have c: "client_at ?w1 q = client_at w q" by (simp add: client_at_def)
  show "flag_set (timeout_clients E w) q \<Longrightarrow> flag_set w q"
    using sweep_frame(2) [of E "map fst (g_clients w)" ?w1 q] c
    by (auto simp: timeout_clients_def flag_set_def split: if_splits option.splits)
qed

text \<open>What a sweep over clients with distinct addresses does.\<close>

lemma sweep_result:
  assumes "distinct (map fst cs)" and "\<forall>(q, c) \<in> set cs. client_at w q = Some c"
  shows "trace (sweep E (map fst cs) w) =
           trace w @ sweep_events E (g_caphandler w) (g_now w) cs (pos w) \<and>
         g_clients (sweep E (map fst cs) w) =
           filter (\<lambda>(q, d). q \<notin> fst ` {(q, c) \<in> set cs. time_t (last_msg c + CLIENT_TIMEOUT) < g_now w})
             (g_clients w) \<and>
         fault (sweep E (map fst cs) w) = fault w"
  using assms
proof (induction cs arbitrary: w)
  case Nil
  show ?case by simp
next
  case (Cons x cs)
  obtain p c where x: "x = (p, c)" by (cases x)
  have cp: "client_at w p = Some c" using Cons.prems(2) x by simp
  have d: "distinct (map fst cs)" "p \<notin> fst ` set cs" using Cons.prems(1) x by simp_all
  show ?case
  proof (cases "time_t (last_msg c + CLIENT_TIMEOUT) < g_now w")
    case False
    have "{(q, c'). (q, c') \<in> set (x # cs) \<and> time_t (last_msg c' + CLIENT_TIMEOUT) < g_now w} =
          {(q, c'). (q, c') \<in> set cs \<and> time_t (last_msg c' + CLIENT_TIMEOUT) < g_now w}"
      using False x by auto
    moreover have "\<forall>(q, c) \<in> set cs. client_at w q = Some c" using Cons.prems(2) by simp
    ultimately show ?thesis
      using Cons.IH [OF d(1), of w] cp False x by simp
  next
    case True
    let ?v = "handle_timeout E p w"
    note ht = handle_timeout_simps [OF cp, of E]
    have pv: "pos ?v = pos w + length (timeout_events E (g_caphandler w) p c (pos w))"
      using ht(1) by (simp add: pos_def)
    have "\<forall>(q, c) \<in> set cs. client_at ?v q = Some c"
    proof (clarify)
      fix a b assume ab: "(a, b) \<in> set cs"
      then have "client_at w a = Some b" using Cons.prems(2) by auto
      moreover have "a \<noteq> p" using ab d(2) by force
      ultimately show "client_at ?v a = Some b" by (simp add: ht(8))
    qed
    from Cons.IH [OF d(1) this]
    have ih: "trace (sweep E (map fst cs) ?v) =
           trace ?v @ sweep_events E (g_caphandler w) (g_now w) cs (pos ?v)"
      "g_clients (sweep E (map fst cs) ?v) =
           filter (\<lambda>(q, d). q \<notin> fst ` {(q, c) \<in> set cs. time_t (last_msg c + CLIENT_TIMEOUT) < g_now w})
             (g_clients ?v)"
      "fault (sweep E (map fst cs) ?v) = fault w"
      by (simp_all add: ht)
    have s: "fst ` {(q, c'). (q, c') \<in> set (x # cs) \<and> time_t (last_msg c' + CLIENT_TIMEOUT) < g_now w} =
          insert p (fst ` {(q, c'). (q, c') \<in> set cs \<and> time_t (last_msg c' + CLIENT_TIMEOUT) < g_now w})"
      using True x by force
    have "filter (\<lambda>(q, d). q \<notin> fst ` {(q, c) \<in> set cs. time_t (last_msg c + CLIENT_TIMEOUT) < g_now w})
             (filter (\<lambda>(q, d). q \<noteq> p) (g_clients w)) =
          filter (\<lambda>(q, d). q \<notin> insert p
                    (fst ` {(q, c) \<in> set cs. time_t (last_msg c + CLIENT_TIMEOUT) < g_now w}))
             (g_clients w)"
      by (induction "g_clients w") (auto simp: filter_filter intro: filter_cong)
    then have f: "g_clients (sweep E (map fst cs) ?v) =
          filter (\<lambda>(q, d). q \<notin>
                    fst ` {(q, c) \<in> set (x # cs). time_t (last_msg c + CLIENT_TIMEOUT) < g_now w})
             (g_clients w)"
      unfolding s ih(2) ht(2) .
    have sw: "sweep E (map fst (x # cs)) w = sweep E (map fst cs) ?v"
      using cp True x by simp
    have ev: "sweep_events E (g_caphandler w) (g_now w) (x # cs) (pos w) =
              timeout_events E (g_caphandler w) p c (pos w) @
              sweep_events E (g_caphandler w) (g_now w) cs (pos ?v)"
      using True x pv by simp
    show ?thesis
      unfolding sw ev f ih(1) ih(3) ht(1) by simp
  qed
qed

subsection \<open>A sweep of the whole list\<close>

lemma stale_filter:
  assumes "distinct (map fst cs)"
  shows "filter (\<lambda>(q, d). q \<notin> fst ` {(q, c) \<in> set cs. P c}) cs = filter (\<lambda>(q, d). \<not> P d) cs"
proof (rule filter_cong [OF refl])
  fix x assume x: "x \<in> set cs"
  obtain q d where qd: "x = (q, d)" by (cases x)
  have "q \<in> fst ` {(q, c) \<in> set cs. P c} \<longleftrightarrow> P d"
  proof
    assume "q \<in> fst ` {(q, c) \<in> set cs. P c}"
    then obtain c where c: "(q, c) \<in> set cs" "P c" by auto
    from assms c(1) x qd have "c = d" by (metis eq_key_imp_eq_value)
    with c show "P d" by simp
  next
    assume "P d"
    with x qd show "q \<in> fst ` {(q, c) \<in> set cs. P c}" by force
  qed
  then show "(case x of (q, d) \<Rightarrow> q \<notin> fst ` {(q, c) \<in> set cs. P c}) =
             (case x of (q, d) \<Rightarrow> \<not> P d)"
    by (simp add: qd)
qed


lemma timeout_clients_result:
  assumes "distinct (map fst (g_clients w))"
    and "CLIENT_TPASS \<le> time_t (g_now w - g_last_timeout_check w)"
  shows "new_events w (timeout_clients E w) =
           sweep_events E (g_caphandler w) (g_now w) (g_clients w) (pos w)"
    and "g_clients (timeout_clients E w) =
           filter (\<lambda>(q, c). \<not> time_t (last_msg c + CLIENT_TIMEOUT) < g_now w) (g_clients w)"
    and "g_last_timeout_check (timeout_clients E w) = g_now w"
    and "fault (timeout_clients E w) = fault w"
proof -
  let ?w1 = "w\<lparr>g_last_timeout_check := g_now w\<rparr>"
  have tc: "timeout_clients E w = sweep E (map fst (g_clients w)) ?w1"
    using assms(2) by (simp add: timeout_clients_def)
  have "\<forall>(q, c) \<in> set (g_clients w). client_at ?w1 q = Some c"
    using assms(1) by (auto simp: client_at_def)
  from sweep_result [OF assms(1) this, of E]
  have r: "trace (sweep E (map fst (g_clients w)) ?w1) =
           trace w @ sweep_events E (g_caphandler w) (g_now w) (g_clients w) (pos w)"
    "g_clients (sweep E (map fst (g_clients w)) ?w1) =
           filter (\<lambda>(q, d). q \<notin> fst ` {(q, c) \<in> set (g_clients w).
                      time_t (last_msg c + CLIENT_TIMEOUT) < g_now w}) (g_clients w)"
    "fault (sweep E (map fst (g_clients w)) ?w1) = fault w"
    by (simp_all add: pos_def)
  show "new_events w (timeout_clients E w) =
           sweep_events E (g_caphandler w) (g_now w) (g_clients w) (pos w)"
    unfolding tc using r(1) by (rule new_events_append)
  show "g_clients (timeout_clients E w) =
           filter (\<lambda>(q, c). \<not> time_t (last_msg c + CLIENT_TIMEOUT) < g_now w) (g_clients w)"
    unfolding tc r(2) using assms(1) by (rule stale_filter)
  show "fault (timeout_clients E w) = fault w" unfolding tc by (rule r(3))
  have "same_globals ?w1 (sweep E (map fst (g_clients w)) ?w1)" by (rule sweep_frame(1))
  then show "g_last_timeout_check (timeout_clients E w) = g_now w"
    unfolding tc by (simp add: same_globals_def)
qed


subsection \<open>The clock of a turn\<close>

lemma process_events_frame:
  "same_globals w (snd (process_events E evs w))"
proof (induction evs arbitrary: w)
  case Nil
  show ?case by simp
next
  case (Cons ev evs)
  show ?case
  proof (cases ev)
    case KSignal
    then show ?thesis by simp
  next
    case KOther
    then show ?thesis by simp
  next
    case (KRead ident udata)
    let ?w1 = "if ident = g_sock w then server_event E w else client_event E udata w"
    have g: "same_globals w ?w1"
      by (simp add: server_event_frame(1) client_event_frame(1))
    show ?thesis
    proof (cases "fault ?w1 \<noteq> None")
      case True
      then show ?thesis using g KRead by (simp add: Let_def)
    next
      case False
      have "same_globals w (snd (process_events E evs ?w1))"
        by (rule same_globals_trans [OF g Cons.IH])
      then show ?thesis using False KRead by (simp add: Let_def)
    qed
  qed
qed

lemma wake_now:
  "g_now (world_of (wake E (Inr evs) w)) = e_time E (pos w)"
proof -
  let ?t = "e_time E (pos w)"
  let ?w1 = "(emit (EvTime ?t) w)\<lparr>g_now := ?t\<rparr>"
  obtain b w2 where pe: "process_events E evs ?w1 = (b, w2)"
    by (cases "process_events E evs ?w1")
  have "same_globals ?w1 w2" using process_events_frame [of ?w1 E evs] pe by simp
  then have g: "g_now w2 = ?t" by (simp add: same_globals_def)
  show ?thesis
    using pe g by (cases b) (simp_all add: wake_def Let_def timeout_clients_frame(1))
qed

lemma client_event_stamp:
  assumes "client_at w p = Some c" and "e_recv E (pos w) (sock c) = Inr (len, pkt)"
    and "HDR_SIZE E \<le> len" and "len - HDR_SIZE E = unat (mh_len (hdr pkt))"
    and "client_at (client_event E p w) p = Some c'"
  shows "last_msg c' = e_time E (Suc (pos w))"
proof -
  let ?t = "e_time E (Suc (pos w))"
  let ?w2 = "set_client p (c\<lparr>last_msg := ?t\<rparr>)
                  (emit (EvTime ?t) (emit (EvRecv (sock c) (Inr (len, pkt))) w))"
  note d = client_event_dispatch [OF assms(1-4)]
  have c2: "client_at ?w2 p = Some (c\<lparr>last_msg := ?t\<rparr>)" using d(3) [of p] by simp
  consider (k) "mh_type (hdr pkt) = NETDUMP_KDH"
    | (v) "mh_type (hdr pkt) \<noteq> NETDUMP_KDH" "mh_type (hdr pkt) = NETDUMP_VMCORE"
    | (f) "mh_type (hdr pkt) \<noteq> NETDUMP_KDH" "mh_type (hdr pkt) \<noteq> NETDUMP_VMCORE"
          "mh_type (hdr pkt) = NETDUMP_FINISHED"
    | (o) "mh_type (hdr pkt) \<noteq> NETDUMP_KDH" "mh_type (hdr pkt) \<noteq> NETDUMP_VMCORE"
          "mh_type (hdr pkt) \<noteq> NETDUMP_FINISHED"
    by blast
  then show ?thesis
  proof cases
    case k
    then have "client_event E p w = handle_kdh E p pkt ?w2" using d(1) by simp
    with assms(5) have "client_at (handle_kdh E p pkt ?w2) p = Some c'" by simp
    from handle_kdh_frame(3) [OF this] c2 show ?thesis by auto
  next
    case v
    then have "client_event E p w = handle_vmcore E p pkt ?w2" using d(1) by simp
    with assms(5) have "client_at (handle_vmcore E p pkt ?w2) p = Some c'" by simp
    from handle_vmcore_frame(3) [OF this] c2 show ?thesis by auto
  next
    case f
    then have "client_event E p w = handle_finish E p pkt ?w2" using d(1) by simp
    with assms(5) have "client_at (handle_finish E p pkt ?w2) p = Some c'" by simp
    from handle_finish_frame(3) [OF this] c2 show ?thesis by auto
  next
    case o
    then have "client_event E p w = ?w2" using d(1) by simp
    with assms(5) c2 show ?thesis by auto
  qed
qed


section \<open>The claim about the sweep\<close>


lemma time_t_id: "- (2 ^ 63) \<le> x \<Longrightarrow> x < 2 ^ 63 \<Longrightarrow> time_t x = x"
  by (simp add: time_t_def)



subsection \<open>The three turns\<close>







section \<open>The claim about the clock\<close>

lemma alloc_client_stamp:
  assumes "fst (alloc_client E sd saddr pth w) = Some q"
  shows "map_option last_msg (client_at (snd (alloc_client E sd saddr pth w)) q) = Some (g_now w)"
    and "\<not> flag_set (snd (alloc_client E sd saddr pth w)) q"
proof -
  obtain w' where a: "alloc_client E sd saddr pth w = (Some q, w')"
    using assms by (cases "alloc_client E sd saddr pth w") simp
  from alloc_client_result [OF a] obtain c' where
    c: "g_clients w' = (q, c') # g_clients w" "\<not> any_data_rcvd c'" "last_msg c' = g_now w"
    by auto
  then have "client_at w' q = Some c'" by (simp add: client_at_def)
  then show "map_option last_msg (client_at (snd (alloc_client E sd saddr pth w)) q) =
               Some (g_now w)"
    and "\<not> flag_set (snd (alloc_client E sd saddr pth w)) q"
    using c a by (simp_all add: flag_set_def)
qed

lemma ex_alloc_client:
  "fst (alloc_client ex_env 9 0x0A000003 ''ok'' ex_w_late) = Some 0"
  by (simp add: alloc_client_def lookup_hostname_def alloc_finish_def alloc_files.simps Let_def
        info_name_def core_name_def snprintf_def dec.simps MAX_DUMPS_def emit_def pos_def
        ex_w_late_def ex_world_def ex_env_def)

lemma ex_tick_event:
  "client_event ex_env_tick 8 ex_w_ticking =
    \<lparr>g_clients = [(8, ex_client\<lparr>last_msg := 101, any_data_rcvd := True, vmcorebufoff := 32,
              vmcoreoff := 131040, vmcorebuf := replicate 32 1\<rparr>)],
     g_now = 100, g_last_timeout_check = 0, g_caphandler = True, g_sock = 3,
     trace = [EvTime 100, EvRecv 7 (Inr (56, ex_next_pkt)), EvTime 101, EvSend 7 91 True],
     fault = None\<rparr>"
  by (simp add: Let_def client_event_def handle_vmcore_def vmcore_make_room_def
        need_flush_def stage_def set_client_def send_ack_def emit_def pos_def client_at_def
        VMCORE_BUFSZ_def NETDUMP_VMCORE_def NETDUMP_KDH_def ex_world_def ex_env_tick_def
        ex_env_def ex_client_def ex_next_pkt_def ex_w_ticking_def)

lemma ex_w_tick_eq:
  "ex_w_tick =
    \<lparr>g_clients = [(8, ex_client\<lparr>last_msg := 101, any_data_rcvd := True, vmcorebufoff := 32,
              vmcoreoff := 131040, vmcorebuf := replicate 32 1\<rparr>)],
     g_now = 100, g_last_timeout_check = 100, g_caphandler = True, g_sock = 3,
     trace = [EvTime 100, EvRecv 7 (Inr (56, ex_next_pkt)), EvTime 101, EvSend 7 91 True],
     fault = None\<rparr>"
proof -
  have t: "e_time ex_env_tick (pos (ex_world [(8, ex_client)])) = 100"
    "g_sock ex_w_ticking = 3"
    "(emit (EvTime 100) (ex_world [(8, ex_client)]))\<lparr>g_now := 100\<rparr> = ex_w_ticking"
    by (simp_all add: ex_env_tick_def ex_env_def ex_world_def pos_def emit_def ex_w_ticking_def)
  show ?thesis
    unfolding ex_w_tick_def wake_def
    by (simp add: Let_def t ex_tick_event)
       (simp add: timeout_clients_def CLIENT_TPASS_def CLIENT_TIMEOUT_def time_t_def client_at_def
          ex_client_def)
qed

text \<open>
  C8, as the code has it. A turn of the event loop reads the clock once into \<open>g_now\<close>,
  and nothing else in the turn changes \<open>g_now\<close>: the listener, the client handlers and
  the sweep keep it. The sweep compares every \<open>last_msg + CLIENT_TIMEOUT\<close> with this
  \<open>g_now\<close>, and a session created in the turn gets \<open>last_msg = g_now\<close>. A packet that passes
  the size checks of \<open>client_event\<close>, however, is stamped with a reading of its own: the
  \<open>last_msg\<close> of its client is the value of the next call of \<^verbatim>\<open>time\<close>, not \<open>g_now\<close>.
\<close>

theorem wake_clock_and_packet_stamp:
  "g_now (world_of (wake E (Inr evs) w)) = e_time E (pos w) \<and>
   g_now (server_event E w) = g_now w \<and>
   g_now (client_event E p w) = g_now w \<and>
   g_now (timeout_clients E w) = g_now w \<and>
   (fst (alloc_client E sd saddr pth w) = Some q \<longrightarrow>
      map_option last_msg (client_at (snd (alloc_client E sd saddr pth w)) q) = Some (g_now w)) \<and>
   (distinct (map fst (g_clients w)) \<and> CLIENT_TPASS \<le> time_t (g_now w - g_last_timeout_check w) \<longrightarrow>
      g_clients (timeout_clients E w) =
        filter (\<lambda>(q, c). \<not> time_t (last_msg c + CLIENT_TIMEOUT) < g_now w) (g_clients w)) \<and>
   (client_at w p = Some c \<and> e_recv E (pos w) (sock c) = Inr (len, pkt) \<and>
    HDR_SIZE E \<le> len \<and> len - HDR_SIZE E = unat (mh_len (hdr pkt)) \<and>
    client_at (client_event E p w) p = Some c' \<longrightarrow>
      last_msg c' = e_time E (Suc (pos w)))"
proof (intro conjI impI)
  show "g_now (world_of (wake E (Inr evs) w)) = e_time E (pos w)" by (rule wake_now)
  show "g_now (server_event E w) = g_now w"
    using server_event_frame(1) [of w E] by (simp add: same_globals_def)
  show "g_now (client_event E p w) = g_now w"
    using client_event_frame(1) [of w E p] by (simp add: same_globals_def)
  show "g_now (timeout_clients E w) = g_now w" by (rule timeout_clients_frame(1))
next
  assume "fst (alloc_client E sd saddr pth w) = Some q"
  then show "map_option last_msg (client_at (snd (alloc_client E sd saddr pth w)) q) =
               Some (g_now w)"
    by (rule alloc_client_stamp(1))
next
  assume "distinct (map fst (g_clients w)) \<and> CLIENT_TPASS \<le> time_t (g_now w - g_last_timeout_check w)"
  then show "g_clients (timeout_clients E w) =
        filter (\<lambda>(q, c). \<not> time_t (last_msg c + CLIENT_TIMEOUT) < g_now w) (g_clients w)"
    using timeout_clients_result(2) by blast
next
  assume "client_at w p = Some c \<and> e_recv E (pos w) (sock c) = Inr (len, pkt) \<and>
    HDR_SIZE E \<le> len \<and> len - HDR_SIZE E = unat (mh_len (hdr pkt)) \<and>
    client_at (client_event E p w) p = Some c'"
  then show "last_msg c' = e_time E (Suc (pos w))"
    using client_event_stamp by blast
qed


theorem wake_clock_and_packet_stamp_witness:
  "g_now ex_w_tick = 100 \<and>
   fst (alloc_client ex_env 9 0x0A000003 ''ok'' ex_w_late) = Some 0 \<and>
   map_option last_msg (client_at (snd (alloc_client ex_env 9 0x0A000003 ''ok'' ex_w_late)) 0) =
     Some 619 \<and>
   distinct (map fst (g_clients ex_w_late)) \<and>
   CLIENT_TPASS \<le> time_t (g_now ex_w_late - g_last_timeout_check ex_w_late) \<and>
   g_clients (timeout_clients ex_env ex_w_late) = [] \<and>
   client_at ex_w_ticking 8 = Some ex_client \<and>
   e_recv ex_env_tick (pos ex_w_ticking) (sock ex_client) = Inr (56, ex_next_pkt) \<and>
   HDR_SIZE ex_env_tick \<le> 56 \<and>
   56 - HDR_SIZE ex_env_tick = unat (mh_len (hdr ex_next_pkt)) \<and>
   map_option last_msg (client_at (client_event ex_env_tick 8 ex_w_ticking) 8) = Some 101"
proof -
  let ?c = "ex_client\<lparr>last_msg := 101, any_data_rcvd := True, vmcorebufoff := 32,
              vmcoreoff := 131040, vmcorebuf := replicate 32 1\<rparr>"
  have a: "g_now ex_w_tick = 100"
    using wake_clock_and_packet_stamp [of ex_env_tick "[KRead 7 8]" "ex_world [(8, ex_client)]"]
    by (simp add: ex_w_tick_def ex_env_tick_def ex_env_def ex_world_def pos_def)
  have l: "distinct (map fst (g_clients ex_w_late))"
    "CLIENT_TPASS \<le> time_t (g_now ex_w_late - g_last_timeout_check ex_w_late)"
    "g_now ex_w_late = 619"
    "filter (\<lambda>(q, c). \<not> time_t (last_msg c + CLIENT_TIMEOUT) < 619) (g_clients ex_w_late) = []"
    by (simp_all add: ex_w_late_def ex_world_def ex_client_def CLIENT_TPASS_def
          CLIENT_TIMEOUT_def time_t_def)
  note B = wake_clock_and_packet_stamp [where E = ex_env and w = ex_w_late and sd = 9
      and saddr = "0x0A000003" and pth = "''ok''" and q = 0]
  from B ex_alloc_client
  have b1: "map_option last_msg
              (client_at (snd (alloc_client ex_env 9 0x0A000003 ''ok'' ex_w_late)) 0) =
            Some (g_now ex_w_late)"
    by blast
  from B l(1,2)
  have b2: "g_clients (timeout_clients ex_env ex_w_late) =
        filter (\<lambda>(q, c). \<not> time_t (last_msg c + CLIENT_TIMEOUT) < g_now ex_w_late) (g_clients ex_w_late)"
    by blast
  have t: "client_at ex_w_ticking 8 = Some ex_client"
    "e_recv ex_env_tick (pos ex_w_ticking) (sock ex_client) = Inr (56, ex_next_pkt)"
    "HDR_SIZE ex_env_tick \<le> 56"
    "56 - HDR_SIZE ex_env_tick = unat (mh_len (hdr ex_next_pkt))"
    "client_at (client_event ex_env_tick 8 ex_w_ticking) 8 = Some ?c"
    "e_time ex_env_tick (Suc (pos ex_w_ticking)) = 101"
    by (simp_all add: ex_tick_event)
       (simp_all add: ex_w_ticking_def ex_world_def ex_env_tick_def ex_env_def ex_client_def
          ex_next_pkt_def client_at_def emit_def pos_def)
  from wake_clock_and_packet_stamp [where E = ex_env_tick and w = ex_w_ticking and p = 8
      and c = ex_client and len = 56 and pkt = ex_next_pkt and c' = ?c] t(1-5)
  have "last_msg ?c = e_time ex_env_tick (Suc (pos ex_w_ticking))" by blast
  then have c: "map_option last_msg (client_at (client_event ex_env_tick 8 ex_w_ticking) 8) =
                  Some 101"
    unfolding t(5) t(6) by simp
  show ?thesis
    using a b1 [unfolded l(3)] b2 [unfolded l(3) l(4)] ex_alloc_client l(1,2) t(1-4) c
    by (intro conjI)
qed

text \<open>
  C8 as the specification has it fails. In one turn the clock reads 100 when the turn
  begins and 101 when the packet of donor 10.0.0.2 is handled: the turn, and with it the
  sweep, has \<open>g_now\<close> = 100, and the session gets \<open>last_msg\<close> = 101, from a second call of
  \<^verbatim>\<open>time\<close> in the same turn.
\<close>

theorem packet_stamp_is_a_second_reading:
  "g_now ex_w_tick = 100 \<and>
   map_option last_msg (client_at ex_w_tick 8) = Some 101 \<and>
   trace ex_w_tick = [EvTime 100, EvRecv 7 (Inr (56, ex_next_pkt)), EvTime 101, EvSend 7 91 True]"
  by (simp add: ex_w_tick_eq client_at_def)

section \<open>The claims about heralds\<close>

lemma client_event_kdh_flag:
  assumes "client_at w p = Some c" and "e_recv E (pos w) (sock c) = Inr (len, pkt)"
    and "HDR_SIZE E \<le> len" and "len - HDR_SIZE E = unat (mh_len (hdr pkt))"
    and "mh_type (hdr pkt) = NETDUMP_KDH"
  shows "flag_set (client_event E p w) p"
proof -
  let ?t = "e_time E (Suc (pos w))"
  let ?w2 = "set_client p (c\<lparr>last_msg := ?t\<rparr>)
                  (emit (EvTime ?t) (emit (EvRecv (sock c) (Inr (len, pkt))) w))"
  note d = client_event_dispatch [OF assms(1-4)]
  have c2: "client_at ?w2 p = Some (c\<lparr>last_msg := ?t\<rparr>)" using d(3) [of p] by simp
  have "client_event E p w = handle_kdh E p pkt ?w2" using d(1) assms(5) by simp
  then show ?thesis
    by (simp add: flag_set_def handle_kdh_simps(2) [OF c2])
qed

text \<open>
  C4, as the code has it. No step of the event loop but the handling of a packet sets
  \<open>any_data_rcvd\<close>: after \<open>server_event\<close> and after \<open>timeout_clients\<close> a session has the flag
  only if it had it before, and a session that \<open>alloc_client\<close> creates does not have it.
  \<open>client_event\<close> for the client at \<open>p\<close> leaves every other session as it is, and the
  session at \<open>p\<close> has the flag afterwards only if it had it before or a KDH or VMCORE
  packet has passed the two size checks of \<open>client_event\<close>. Such a KDH packet always sets
  the flag, also when \<open>handle_kdh\<close> then finds it shorter than a kernel dump header and
  gives up without an acknowledgement: the flag is set before the length is looked at.
  When a herald arrives from the address of a session whose flag is not set,
  \<open>server_event\<close> leaves the client list, the globals and the fault as they are, and its
  only calls are the reading of the herald and one \<^verbatim>\<open>send\<close> of an acknowledgement with
  the herald's sequence number on the socket of that session.
\<close>

theorem flag_unset_until_data_and_herald_reacked:
  "(flag_set (server_event E w) q \<longrightarrow> flag_set w q) \<and>
   (flag_set (timeout_clients E w) q \<longrightarrow> flag_set w q) \<and>
   (fst (alloc_client E sd saddr pth w) = Some q \<longrightarrow>
      \<not> flag_set (snd (alloc_client E sd saddr pth w)) q) \<and>
   (q \<noteq> p \<longrightarrow> client_at (client_event E p w) q = client_at w q) \<and>
   (flag_set (client_event E p w) p \<longrightarrow>
      flag_set w p \<or>
      (\<exists>c len pkt. client_at w p = Some c \<and> e_recv E (pos w) (sock c) = Inr (len, pkt) \<and>
         HDR_SIZE E \<le> len \<and> len - HDR_SIZE E = unat (mh_len (hdr pkt)) \<and>
         mh_type (hdr pkt) \<in> {NETDUMP_KDH, NETDUMP_VMCORE})) \<and>
   (client_at w p = Some d \<and> e_recv E (pos w) (sock d) = Inr (n, kdh) \<and>
    HDR_SIZE E \<le> n \<and> n - HDR_SIZE E = unat (mh_len (hdr kdh)) \<and>
    mh_type (hdr kdh) = NETDUMP_KDH \<longrightarrow>
      flag_set (client_event E p w) p \<and>
      acks (new_events w (client_event E p w)) =
        (if unat (mh_len (hdr kdh)) < KDH_SIZE E then [] else [(sock d, mh_seqno (hdr kdh))])) \<and>
   (e_herald E (pos w) = Inr h \<and>
    find (\<lambda>(q, c). ip c = h_saddr h) (g_clients w) = Some (p, c) \<and> \<not> any_data_rcvd c \<longrightarrow>
      g_clients (server_event E w) = g_clients w \<and>
      fault (server_event E w) = fault w \<and>
      same_globals w (server_event E w) \<and>
      new_events w (server_event E w) =
        [EvHeraldCall (Inr h),
         EvSend (sock c) (h_seqno h) (e_send E (Suc (pos w)) (sock c) (h_seqno h))])"
proof (intro conjI impI)
  assume "flag_set (server_event E w) q"
  then show "flag_set w q" by (rule server_event_frame(2))
next
  assume "flag_set (timeout_clients E w) q"
  then show "flag_set w q" by (rule timeout_clients_frame(4))
next
  assume "fst (alloc_client E sd saddr pth w) = Some q"
  then show "\<not> flag_set (snd (alloc_client E sd saddr pth w)) q"
    by (rule alloc_client_stamp(2))
next
  assume "q \<noteq> p"
  then show "client_at (client_event E p w) q = client_at w q" by (rule client_event_frame(2))
next
  assume "flag_set (client_event E p w) p"
  then show "flag_set w p \<or>
      (\<exists>c len pkt. client_at w p = Some c \<and> e_recv E (pos w) (sock c) = Inr (len, pkt) \<and>
         HDR_SIZE E \<le> len \<and> len - HDR_SIZE E = unat (mh_len (hdr pkt)) \<and>
         mh_type (hdr pkt) \<in> {NETDUMP_KDH, NETDUMP_VMCORE})"
    by (rule client_event_frame(3))
next
  assume k: "client_at w p = Some d \<and> e_recv E (pos w) (sock d) = Inr (n, kdh) \<and>
    HDR_SIZE E \<le> n \<and> n - HDR_SIZE E = unat (mh_len (hdr kdh)) \<and>
    mh_type (hdr kdh) = NETDUMP_KDH"
  then show "flag_set (client_event E p w) p"
    using client_event_kdh_flag [of w p d E n kdh] by blast
  let ?t = "e_time E (Suc (pos w))"
  let ?w2 = "set_client p (d\<lparr>last_msg := ?t\<rparr>)
                  (emit (EvTime ?t) (emit (EvRecv (sock d) (Inr (n, kdh))) w))"
  from k have k': "client_at w p = Some d" "e_recv E (pos w) (sock d) = Inr (n, kdh)"
    "HDR_SIZE E \<le> n" "n - HDR_SIZE E = unat (mh_len (hdr kdh))"
    "mh_type (hdr kdh) = NETDUMP_KDH"
    by simp_all
  note dd = client_event_dispatch [OF k'(1-4)]
  have c2: "client_at ?w2 p = Some (d\<lparr>last_msg := ?t\<rparr>)" using dd(3) [of p] by simp
  have ce: "client_event E p w = handle_kdh E p kdh ?w2" using dd(1) k'(5) by simp
  have "trace (client_event E p w) =
          trace w @ [EvRecv (sock d) (Inr (n, kdh)), EvTime ?t] @
            kdh_events E (d\<lparr>last_msg := ?t\<rparr>) kdh (pos ?w2)"
    unfolding ce by (simp add: handle_kdh_simps(1) [OF c2])
  then have "new_events w (client_event E p w) =
               [EvRecv (sock d) (Inr (n, kdh)), EvTime ?t] @
               kdh_events E (d\<lparr>last_msg := ?t\<rparr>) kdh (pos ?w2)"
    by (rule new_events_append)
  then show "acks (new_events w (client_event E p w)) =
        (if unat (mh_len (hdr kdh)) < KDH_SIZE E then [] else [(sock d, mh_seqno (hdr kdh))])"
    by (simp add: kdh_events_facts(2))
next
  assume a: "e_herald E (pos w) = Inr h \<and>
    find (\<lambda>(q, c). ip c = h_saddr h) (g_clients w) = Some (p, c) \<and> \<not> any_data_rcvd c"
  then have se: "server_event E w = send_ack E c (h_seqno h) (emit (EvHeraldCall (Inr h)) w)"
    using server_event_retransmit [of E w h p c] by blast
  show "g_clients (server_event E w) = g_clients w" unfolding se by simp
  show "fault (server_event E w) = fault w" unfolding se by simp
  show "same_globals w (server_event E w)" by (rule server_event_frame(1))
  show "new_events w (server_event E w) =
        [EvHeraldCall (Inr h),
         EvSend (sock c) (h_seqno h) (e_send E (Suc (pos w)) (sock c) (h_seqno h))]"
    unfolding se by (simp add: new_events_def pos_def)
qed

lemma ex_retransmit:
  "e_herald ex_env_herald (pos (ex_world [(8, ex_client)])) = Inr ex_herald"
  "find (\<lambda>(q, c). ip c = h_saddr ex_herald) (g_clients (ex_world [(8, ex_client)])) =
     Some (8, ex_client)"
  "\<not> any_data_rcvd ex_client"
  "sock ex_client = 7" "h_seqno ex_herald = 0"
  "e_send ex_env_herald (Suc (pos (ex_world [(8, ex_client)]))) 7 0 = True"
  by (simp_all add: ex_env_herald_def ex_env_def ex_herald_def ex_world_def ex_client_def)

lemma ex_short_kdh_event:
  "client_event ex_env_short_kdh 8 (ex_world [(8, ex_client)]) =
     \<lparr>g_clients = [(8, ex_client\<lparr>last_msg := 1000, any_data_rcvd := True\<rparr>)],
      g_now = 0, g_last_timeout_check = 0, g_caphandler = True, g_sock = 3,
      trace = [EvRecv 7 (Inr (24, ex_short_kdh)), EvTime 1000,
               EvPinfo (Some 5) ''Bad KDH: packet too small\<newline>'', EvFflush (Some 5)],
      fault = None\<rparr>"
  by (simp add: Let_def client_event_def handle_kdh_def set_client_def emit_def pos_def
        client_at_def NETDUMP_KDH_def ex_world_def ex_env_short_kdh_def ex_env_def ex_client_def
        ex_short_kdh_def)

lemma ex_short_kdh_recv:
  "client_at (ex_world [(8, ex_client)]) 8 = Some ex_client"
  "e_recv ex_env_short_kdh (pos (ex_world [(8, ex_client)])) (sock ex_client) =
     Inr (24, ex_short_kdh)"
  "HDR_SIZE ex_env_short_kdh \<le> 24"
  "24 - HDR_SIZE ex_env_short_kdh = unat (mh_len (hdr ex_short_kdh))"
  "mh_type (hdr ex_short_kdh) = NETDUMP_KDH"
  "unat (mh_len (hdr ex_short_kdh)) < KDH_SIZE ex_env_short_kdh"
  by (simp_all add: ex_world_def client_at_def ex_env_short_kdh_def ex_env_def ex_short_kdh_def)

theorem flag_unset_until_data_and_herald_reacked_witness:
  "flag_set (server_event ex_env ex_w_busy) 8 \<and> flag_set ex_w_busy 8 \<and>
   flag_set (timeout_clients ex_env ex_w_busy) 8 \<and>
   fst (alloc_client ex_env 9 0x0A000003 ''ok'' ex_w_late) = Some 0 \<and>
   \<not> flag_set (snd (alloc_client ex_env 9 0x0A000003 ''ok'' ex_w_late)) 0 \<and>
   (9::nat) \<noteq> 8 \<and>
   client_at (client_event ex_env_tick 8 ex_w_ticking) 9 = client_at ex_w_ticking 9 \<and>
   flag_set (client_event ex_env_tick 8 ex_w_ticking) 8 \<and>
   \<not> flag_set ex_w_ticking 8 \<and>
   e_recv ex_env_tick (pos ex_w_ticking) (sock ex_client) = Inr (56, ex_next_pkt) \<and>
   mh_type (hdr ex_next_pkt) = NETDUMP_VMCORE \<and>
   client_at (ex_world [(8, ex_client)]) 8 = Some ex_client \<and>
   e_recv ex_env_short_kdh (pos (ex_world [(8, ex_client)])) (sock ex_client) =
     Inr (24, ex_short_kdh) \<and>
   HDR_SIZE ex_env_short_kdh \<le> 24 \<and>
   24 - HDR_SIZE ex_env_short_kdh = unat (mh_len (hdr ex_short_kdh)) \<and>
   mh_type (hdr ex_short_kdh) = NETDUMP_KDH \<and>
   flag_set (client_event ex_env_short_kdh 8 (ex_world [(8, ex_client)])) 8 \<and>
   acks (new_events (ex_world [(8, ex_client)])
           (client_event ex_env_short_kdh 8 (ex_world [(8, ex_client)]))) = [] \<and>
   e_herald ex_env_herald (pos (ex_world [(8, ex_client)])) = Inr ex_herald \<and>
   find (\<lambda>(q, c). ip c = h_saddr ex_herald) (g_clients (ex_world [(8, ex_client)])) =
     Some (8, ex_client) \<and>
   \<not> any_data_rcvd ex_client \<and>
   g_clients (server_event ex_env_herald (ex_world [(8, ex_client)])) = [(8, ex_client)] \<and>
   new_events (ex_world [(8, ex_client)]) (server_event ex_env_herald (ex_world [(8, ex_client)])) =
     [EvHeraldCall (Inr ex_herald), EvSend 7 0 True]"
proof -
  have s: "flag_set (server_event ex_env ex_w_busy) 8"
    "flag_set (timeout_clients ex_env ex_w_busy) 8"
    by (simp_all add: server_event_def timeout_clients_def Let_def flag_set_def client_at_def
          emit_def pos_def ex_env_def ex_w_busy_def ex_world_def ex_busy_client_def
          CLIENT_TPASS_def time_t_def)
  note A = flag_unset_until_data_and_herald_reacked [where E = ex_env and w = ex_w_busy and q = 8]
  from A s(1) have a: "flag_set ex_w_busy 8" by blast
  note B = flag_unset_until_data_and_herald_reacked [where E = ex_env and w = ex_w_late
      and sd = 9 and saddr = "0x0A000003" and pth = "''ok''" and q = 0]
  from B ex_alloc_client
  have b: "\<not> flag_set (snd (alloc_client ex_env 9 0x0A000003 ''ok'' ex_w_late)) 0" by blast
  note C = flag_unset_until_data_and_herald_reacked [where E = ex_env_tick and w = ex_w_ticking
      and q = 9 and p = 8]
  from C have c: "client_at (client_event ex_env_tick 8 ex_w_ticking) 9 = client_at ex_w_ticking 9"
    by simp
  have t: "flag_set (client_event ex_env_tick 8 ex_w_ticking) 8"
    "\<not> flag_set ex_w_ticking 8"
    "e_recv ex_env_tick (pos ex_w_ticking) (sock ex_client) = Inr (56, ex_next_pkt)"
    "mh_type (hdr ex_next_pkt) = NETDUMP_VMCORE"
    by (simp_all add: ex_tick_event flag_set_def)
       (simp_all add: ex_w_ticking_def ex_world_def ex_env_tick_def ex_env_def ex_client_def
          ex_next_pkt_def client_at_def emit_def pos_def)
  note K = flag_unset_until_data_and_herald_reacked [where E = ex_env_short_kdh
      and w = "ex_world [(8, ex_client)]" and p = 8 and d = ex_client and n = 24
      and kdh = ex_short_kdh]
  from K ex_short_kdh_recv(1-5)
  have k: "flag_set (client_event ex_env_short_kdh 8 (ex_world [(8, ex_client)])) 8"
    "acks (new_events (ex_world [(8, ex_client)])
           (client_event ex_env_short_kdh 8 (ex_world [(8, ex_client)]))) =
       (if unat (mh_len (hdr ex_short_kdh)) < KDH_SIZE ex_env_short_kdh then []
        else [(sock ex_client, mh_seqno (hdr ex_short_kdh))])"
    by blast+
  note D = flag_unset_until_data_and_herald_reacked [where E = ex_env_herald
      and w = "ex_world [(8, ex_client)]" and h = ex_herald and p = 8 and c = ex_client]
  from D ex_retransmit(1-3)
  have d: "g_clients (server_event ex_env_herald (ex_world [(8, ex_client)])) =
             g_clients (ex_world [(8, ex_client)])"
    "new_events (ex_world [(8, ex_client)])
       (server_event ex_env_herald (ex_world [(8, ex_client)])) =
     [EvHeraldCall (Inr ex_herald),
      EvSend (sock ex_client) (h_seqno ex_herald)
        (e_send ex_env_herald (Suc (pos (ex_world [(8, ex_client)]))) (sock ex_client)
           (h_seqno ex_herald))]"
    by blast+
  have g: "g_clients (ex_world [(8, ex_client)]) = [(8, ex_client)]"
    by (simp add: ex_world_def)
  show ?thesis
    using s a b c t ex_alloc_client ex_retransmit(1-3) d [unfolded g ex_retransmit(4-6)]
      ex_short_kdh_recv(1-5) k(1) k(2) [unfolded if_P [OF ex_short_kdh_recv(6)]]
    by (intro conjI) simp_all
qed

text \<open>
  C4 as the specification has it fails. A KDH packet without payload passes the size
  checks of \<open>client_event\<close>; \<open>handle_kdh\<close> writes \<open>Bad KDH: packet too small\<close> and returns
  without an acknowledgement, so the packet has not been accepted; but the session, whose
  flag was not set, has the flag afterwards.
\<close>

theorem short_kdh_sets_flag:
  "\<not> flag_set (ex_world [(8, ex_client)]) 8 \<and>
   unat (mh_len (hdr ex_short_kdh)) < KDH_SIZE ex_env_short_kdh \<and>
   new_events (ex_world [(8, ex_client)])
     (client_event ex_env_short_kdh 8 (ex_world [(8, ex_client)])) =
     [EvRecv 7 (Inr (24, ex_short_kdh)), EvTime 1000,
      EvPinfo (Some 5) ''Bad KDH: packet too small\<newline>'', EvFflush (Some 5)] \<and>
   flag_set (client_event ex_env_short_kdh 8 (ex_world [(8, ex_client)])) 8"
  by (simp add: ex_short_kdh_event ex_short_kdh_recv(6) flag_set_def client_at_def new_events_def)
     (simp add: ex_world_def ex_client_def)

text \<open>
  C1 does not hold of the code. When a herald arrives from the address of a session that
  has received data (the clients having distinct addresses), \<open>server_event\<close> ends the old
  session by the time-out path, and nothing more: \<^verbatim>\<open>alloc_client\<close> is not called, so no
  session is created or registered, no acknowledgement is sent, the new socket of the
  herald is left open, and \<^verbatim>\<open>client_pinfo\<close> and \<^verbatim>\<open>send_ack\<close> are then called with the
  pointer that \<^verbatim>\<open>free_client\<close> has just freed.
\<close>

theorem herald_after_data_uses_freed_client:
  assumes "e_herald E (pos w) = Inr h"
    and "find (\<lambda>(q, c). ip c = h_saddr h) (g_clients w) = Some (p, c)"
    and "any_data_rcvd c"
    and "distinct (map fst (g_clients w))"
  shows "new_events w (server_event E w) =
           EvHeraldCall (Inr h) # timeout_events E (g_caphandler w) p c (Suc (pos w)) \<and>
         acks (new_events w (server_event E w)) = [] \<and>
         g_clients (server_event E w) = filter (\<lambda>(q, d). q \<noteq> p) (g_clients w) \<and>
         client_at (server_event E w) p = None \<and>
         fault (server_event E w) = Some (UseAfterFree p)"
proof -
  let ?w1 = "emit (EvHeraldCall (Inr h)) w"
  have se: "server_event E w = announce E p (h_seqno h) (handle_timeout E p ?w1)"
    using assms(1-3) by (rule server_event_supersede)
  have "client_at w p = Some c"
    using find_client_at [OF assms(2,4)] by (simp add: client_at_def)
  then have c1: "client_at ?w1 p = Some c" by (simp add: client_at_def emit_def)
  note ht = handle_timeout_simps [OF c1, of E]
  have gone: "client_at (handle_timeout E p ?w1) p = None" by (simp add: ht(8))
  then have an: "server_event E w = raise_fault (UseAfterFree p) (handle_timeout E p ?w1)"
    unfolding se by (simp add: announce_def)
  have p1: "pos ?w1 = Suc (pos w)" by (simp add: pos_def emit_def)
  have tr: "trace (server_event E w) =
              trace w @ EvHeraldCall (Inr h) # timeout_events E (g_caphandler w) p c (Suc (pos w))"
    unfolding an by (simp add: ht(1) p1)
  then have ne: "new_events w (server_event E w) =
           EvHeraldCall (Inr h) # timeout_events E (g_caphandler w) p c (Suc (pos w))"
    by (rule new_events_append)
  have ak: "acks (timeout_events E (g_caphandler w) p c (Suc (pos w))) = []"
    by (simp add: timeout_events_def acks_append handler_events_facts(2) free_events_facts(2))
  show ?thesis
    unfolding ne
    by (simp add: ak) (simp add: an ht(2) gone)
qed

theorem herald_after_data_uses_freed_client_witness:
  "e_herald ex_env_herald (pos ex_w_busy) = Inr ex_herald \<and>
   find (\<lambda>(q, c). ip c = h_saddr ex_herald) (g_clients ex_w_busy) = Some (8, ex_busy_client) \<and>
   any_data_rcvd ex_busy_client \<and>
   distinct (map fst (g_clients ex_w_busy)) \<and>
   new_events ex_w_busy (server_event ex_env_herald ex_w_busy) =
     [EvHeraldCall (Inr ex_herald),
      EvPinfo (Some 5) ''Dump incomplete: client timed out\<newline>'',
      EvHandler ''timeout'' 0x0A000002 ''donor'' ''ok/info.donor.0'' ''ok/vmcore.donor.0'' 0,
      EvKeventDel 7 True, EvFclose (Some 5), EvClose 6, EvClose 7, EvFree 8] \<and>
   g_clients (server_event ex_env_herald ex_w_busy) = [] \<and>
   fault (server_event ex_env_herald ex_w_busy) = Some (UseAfterFree 8)"
proof -
  have h: "e_herald ex_env_herald (pos ex_w_busy) = Inr ex_herald"
    "find (\<lambda>(q, c). ip c = h_saddr ex_herald) (g_clients ex_w_busy) = Some (8, ex_busy_client)"
    "any_data_rcvd ex_busy_client"
    "distinct (map fst (g_clients ex_w_busy))"
    by (simp_all add: ex_env_herald_def ex_env_def ex_herald_def ex_w_busy_def ex_world_def
          ex_busy_client_def ex_client_def)
  have ev: "timeout_events ex_env_herald (g_caphandler ex_w_busy) 8 ex_busy_client
              (Suc (pos ex_w_busy)) =
     [EvPinfo (Some 5) ''Dump incomplete: client timed out\<newline>'',
      EvHandler ''timeout'' 0x0A000002 ''donor'' ''ok/info.donor.0'' ''ok/vmcore.donor.0'' 0,
      EvKeventDel 7 True, EvFclose (Some 5), EvClose 6, EvClose 7, EvFree 8]"
    "filter (\<lambda>(q, d). q \<noteq> 8) (g_clients ex_w_busy) = []"
    by (simp_all add: timeout_events_def handler_events_def free_events_def ex_env_herald_def
          ex_env_def ex_w_busy_def ex_world_def ex_busy_client_def ex_client_def pos_def)
  show ?thesis
    using herald_after_data_uses_freed_client [OF h, unfolded ev] h
    by (intro conjI) simp_all
qed


section \<open>The claims about the end of a dump\<close>

text \<open>
  C5. \<open>handle_finish\<close> begins with the \<^verbatim>\<open>pwrite\<close> of all buffered bytes of the session at
  its base. If the write is not complete the session is ended by the error path, which
  neither acknowledges nor reports success. If it is complete, the next call is the
  \<^verbatim>\<open>fsync\<close> of the core file; the calls for the \<^verbatim>\<open>.last\<close> links follow, none of which is
  a \<^verbatim>\<open>send\<close> or a handler call; and only when the links went through come, in this
  order, the line \<open>Dump complete\<close>, the acknowledgement with the sequence number of the
  FINISHED packet, the handler with reason \<open>success\<close> (when a handler is configured) and
  the calls of \<open>free_client\<close>.
\<close>

theorem finish_flush_then_ack:
  assumes "client_at w p = Some c"
  shows "new_events w (handle_finish E p pkt w) =
           EvPwrite (corefd c) (take (unat (vmcorebufoff c)) (vmcorebuf c)) (vmcorebufoff c)
             (vmcoreoff c) (flush_result E c (pos w)) #
           (if flush_result E c (pos w) \<noteq> sint (vmcorebufoff c)
            then flush_failure_events E (g_caphandler w) p c (Suc (pos w))
            else EvFsync (corefd c) #
                 finish_link_events E (c\<lparr>vmcorebufoff := 0\<rparr>) (pos w + 2) @
                 (if finish_links_ok E (c\<lparr>vmcorebufoff := 0\<rparr>) (pos w + 2)
                  then EvPinfo (infofile c) ''Dump complete\<newline>'' #
                       EvSend (sock c) (mh_seqno (hdr pkt))
                         (e_send E
                            (Suc (pos w + 2 +
                               length (finish_link_events E (c\<lparr>vmcorebufoff := 0\<rparr>) (pos w + 2))))
                            (sock c) (mh_seqno (hdr pkt))) #
                       handler_events E (g_caphandler w) (c\<lparr>vmcorebufoff := 0\<rparr>) ''success''
                         (pos w + 2 +
                          length (finish_link_events E (c\<lparr>vmcorebufoff := 0\<rparr>) (pos w + 2)) + 2) @
                       free_events E p (c\<lparr>vmcorebufoff := 0\<rparr>)
                         (pos w + 2 +
                          length (finish_link_events E (c\<lparr>vmcorebufoff := 0\<rparr>) (pos w + 2)) + 2 +
                          length (handler_events E (g_caphandler w) (c\<lparr>vmcorebufoff := 0\<rparr>)
                                    ''success''
                                    (pos w + 2 +
                                     length (finish_link_events E (c\<lparr>vmcorebufoff := 0\<rparr>)
                                               (pos w + 2)) + 2)))
                  else [])) \<and>
         (\<forall>e \<in> set (flush_failure_events E (g_caphandler w) p c (Suc (pos w))).
            \<not> is_send e \<and> \<not> is_success e) \<and>
         (\<forall>e \<in> set (finish_link_events E (c\<lparr>vmcorebufoff := 0\<rparr>) (pos w + 2)).
            \<not> is_send e \<and> \<not> is_success e) \<and>
         (g_caphandler w \<longrightarrow>
            handler_events E (g_caphandler w) (c\<lparr>vmcorebufoff := 0\<rparr>) ''success'' n =
              [EvHandler ''success'' (ip c) (hostname c) (infofilename c) (corefilename c)
                 (e_handler E n ''success'' (ip c))])"
proof (intro conjI impI)
  show "new_events w (handle_finish E p pkt w) =
           EvPwrite (corefd c) (take (unat (vmcorebufoff c)) (vmcorebuf c)) (vmcorebufoff c)
             (vmcoreoff c) (flush_result E c (pos w)) #
           (if flush_result E c (pos w) \<noteq> sint (vmcorebufoff c)
            then flush_failure_events E (g_caphandler w) p c (Suc (pos w))
            else EvFsync (corefd c) #
                 finish_link_events E (c\<lparr>vmcorebufoff := 0\<rparr>) (pos w + 2) @
                 (if finish_links_ok E (c\<lparr>vmcorebufoff := 0\<rparr>) (pos w + 2)
                  then EvPinfo (infofile c) ''Dump complete\<newline>'' #
                       EvSend (sock c) (mh_seqno (hdr pkt))
                         (e_send E
                            (Suc (pos w + 2 +
                               length (finish_link_events E (c\<lparr>vmcorebufoff := 0\<rparr>) (pos w + 2))))
                            (sock c) (mh_seqno (hdr pkt))) #
                       handler_events E (g_caphandler w) (c\<lparr>vmcorebufoff := 0\<rparr>) ''success''
                         (pos w + 2 +
                          length (finish_link_events E (c\<lparr>vmcorebufoff := 0\<rparr>) (pos w + 2)) + 2) @
                       free_events E p (c\<lparr>vmcorebufoff := 0\<rparr>)
                         (pos w + 2 +
                          length (finish_link_events E (c\<lparr>vmcorebufoff := 0\<rparr>) (pos w + 2)) + 2 +
                          length (handler_events E (g_caphandler w) (c\<lparr>vmcorebufoff := 0\<rparr>)
                                    ''success''
                                    (pos w + 2 +
                                     length (finish_link_events E (c\<lparr>vmcorebufoff := 0\<rparr>)
                                               (pos w + 2)) + 2)))
                  else []))"
    by (simp add: handle_finish_events [OF assms] flush_write_def finish_done_events_def)
  show "\<forall>e \<in> set (flush_failure_events E (g_caphandler w) p c (Suc (pos w))).
            \<not> is_send e \<and> \<not> is_success e"
    using flush_failure_events_facts(1) [of E "g_caphandler w" p c "Suc (pos w)"] by blast
  show "\<forall>e \<in> set (finish_link_events E (c\<lparr>vmcorebufoff := 0\<rparr>) (pos w + 2)).
            \<not> is_send e \<and> \<not> is_success e"
    using finish_link_events_facts(3) [of E "c\<lparr>vmcorebufoff := 0\<rparr>" "pos w + 2"] by blast
next
  assume "g_caphandler w"
  then show "handler_events E (g_caphandler w) (c\<lparr>vmcorebufoff := 0\<rparr>) ''success'' n =
              [EvHandler ''success'' (ip c) (hostname c) (infofilename c) (corefilename c)
                 (e_handler E n ''success'' (ip c))]"
    by (simp add: handler_events_def)
qed


theorem finish_flush_then_ack_witness:
  "client_at (ex_world [(8, ex_full_client)]) 8 = Some ex_full_client \<and>
   new_events (ex_world [(8, ex_full_client)])
     (handle_finish ex_env 8 ex_fin_pkt (ex_world [(8, ex_full_client)])) =
   [EvPwrite 6 (replicate 131040 0) 131040 0 131040, EvFsync 6,
    EvUnlinkat ''ok/vmcore.donor.last'' (Some ENOENT),
    EvSymlinkat ''ok/vmcore.donor.0'' ''ok/vmcore.donor.last'' None,
    EvUnlinkat ''ok/info.donor.last'' (Some ENOENT),
    EvSymlinkat ''ok/info.donor.0'' ''ok/info.donor.last'' None,
    EvPinfo (Some 5) ''Dump complete\<newline>'', EvSend 7 5 True,
    EvHandler ''success'' 0x0A000002 ''donor'' ''ok/info.donor.0'' ''ok/vmcore.donor.0'' 0,
    EvKeventDel 7 True, EvFclose (Some 5), EvClose 6, EvClose 7, EvFree 8]"
proof -
  have "new_events (ex_world [(8, ex_full_client)])
     (handle_finish ex_env 8 ex_fin_pkt (ex_world [(8, ex_full_client)])) =
   [EvPwrite 6 (replicate 131040 0) 131040 0 131040, EvFsync 6,
    EvUnlinkat ''ok/vmcore.donor.last'' (Some ENOENT),
    EvSymlinkat ''ok/vmcore.donor.0'' ''ok/vmcore.donor.last'' None,
    EvUnlinkat ''ok/info.donor.last'' (Some ENOENT),
    EvSymlinkat ''ok/info.donor.0'' ''ok/info.donor.last'' None,
    EvPinfo (Some 5) ''Dump complete\<newline>'', EvSend 7 5 True,
    EvHandler ''success'' 0x0A000002 ''donor'' ''ok/info.donor.0'' ''ok/vmcore.donor.0'' 0,
    EvKeventDel 7 True, EvFclose (Some 5), EvClose 6, EvClose 7, EvFree 8]"
    by (subst finish_flush_then_ack [OF ex_full_simps(2), THEN conjunct1])
       (simp add: flush_result_def finish_link_events_def finish_links_ok_def link_events_def
          link_ok_def handler_events_def free_events_def vmcore_last_def info_last_def
          snprintf_def ex_env_def ex_full_client_def ex_client_def ex_world_def ex_fin_pkt_def
          pos_def)
  then show ?thesis by (simp only: ex_full_simps(2) simp_thms)
qed

text \<open>What \<open>handle_finish\<close> leaves when a link fails.\<close>

lemma finish_link_failure_facts:
  assumes "client_at w p = Some c"
    and "\<exists>e \<in> set (new_events w (handle_finish E p pkt w)). link_failure e"
  shows "link_failure (last (new_events w (handle_finish E p pkt w)))"
    and "\<forall>e \<in> set (new_events w (handle_finish E p pkt w)).
             \<not> is_send e \<and> \<not> is_handler e \<and>
             e \<noteq> EvPinfo (infofile c) ''Dump complete\<newline>''"
    and "client_at (handle_finish E p pkt w) q =
           (if q = p then Some (c\<lparr>vmcorebufoff := 0\<rparr>) else client_at w q)"
    and "map fst (g_clients (handle_finish E p pkt w)) = map fst (g_clients w)"
    and "fault (handle_finish E p pkt w) = fault w"
    and "same_globals w (handle_finish E p pkt w)"
proof -
  let ?c = "c\<lparr>vmcorebufoff := 0\<rparr>"
  have ok: "flush_result E c (pos w) = sint (vmcorebufoff c)"
  proof (rule ccontr)
    assume False: "flush_result E c (pos w) \<noteq> sint (vmcorebufoff c)"
    have "new_events w (handle_finish E p pkt w) =
          flush_write c (flush_result E c (pos w)) #
            flush_failure_events E (g_caphandler w) p c (Suc (pos w))"
      using False by (simp add: handle_finish_events [OF assms(1)])
    then show "False"
      using assms(2) flush_failure_events_facts(1) [of E "g_caphandler w" p c "Suc (pos w)"]
      by (simp add: flush_write_def)
  qed
  note hf = handle_finish_flushed [OF assms(1) ok, of pkt]
  have bad: "\<not> finish_links_ok E ?c (pos w + 2)"
  proof
    assume okl: "finish_links_ok E ?c (pos w + 2)"
    have "new_events w (handle_finish E p pkt w) =
            flush_write c (sint (vmcorebufoff c)) # EvFsync (corefd c) #
              finish_link_events E ?c (pos w + 2) @
              finish_done_events E (g_caphandler w) p ?c (mh_seqno (hdr pkt))
                (pos w + 2 + length (finish_link_events E ?c (pos w + 2)))"
      using ok okl by (simp add: handle_finish_events [OF assms(1)])
    then show False
      using assms(2) finish_link_events_facts(1) [of E ?c "pos w + 2"] okl
        finish_done_events_facts(1) [of E "g_caphandler w" p ?c]
      by (auto simp: flush_write_def)
  qed
  have ne: "new_events w (handle_finish E p pkt w) =
            flush_write c (sint (vmcorebufoff c)) # EvFsync (corefd c) #
              finish_link_events E ?c (pos w + 2)"
    using ok bad by (simp add: handle_finish_events [OF assms(1)])
  have "map fst (map (\<lambda>(q, d). if q = p then (q, ?c) else (q, d)) (g_clients w)) =
            map fst (g_clients w)"
    by (induction "g_clients w") auto
  then show "map fst (g_clients (handle_finish E p pkt w)) = map fst (g_clients w)"
    using bad by (simp add: hf(8))
  show "client_at (handle_finish E p pkt w) q =
           (if q = p then Some (c\<lparr>vmcorebufoff := 0\<rparr>) else client_at w q)"
    using bad by (simp add: hf(2))
  show "fault (handle_finish E p pkt w) = fault w"
    by (rule hf(3))
  show "link_failure (last (new_events w (handle_finish E p pkt w)))"
    using finish_link_events_facts(2) [OF bad] finish_link_events_facts(5) [of E ?c "pos w + 2"]
    by (simp add: ne)
  show "\<forall>e \<in> set (new_events w (handle_finish E p pkt w)).
             \<not> is_send e \<and> \<not> is_handler e \<and>
             e \<noteq> EvPinfo (infofile c) ''Dump complete\<newline>''"
    using finish_link_events_facts(3) [of E ?c "pos w + 2"]
    by (simp add: ne flush_write_def)
  show "same_globals w (handle_finish E p pkt w)"
    by (rule handle_finish_frame(1))
qed

text \<open>A FINISHED packet for a session with an empty buffer, when write and links work.\<close>

lemma client_event_finish_completes:
  assumes "client_at w p = Some c" and "vmcorebufoff c = 0"
    and "e_recv E (pos w) (sock c) = Inr (len, pkt)"
    and "HDR_SIZE E \<le> len" and "len - HDR_SIZE E = unat (mh_len (hdr pkt))"
    and "mh_type (hdr pkt) = NETDUMP_FINISHED"
  defines "c2 \<equiv> c\<lparr>last_msg := e_time E (Suc (pos w))\<rparr>"
  shows "client_event E p w =
           handle_finish E p pkt
             (set_client p c2
                (emit (EvTime (e_time E (Suc (pos w))))
                   (emit (EvRecv (sock c) (Inr (len, pkt))) w)))"
    and "flush_result E c2 (pos w + 2) = 0 \<Longrightarrow> finish_links_ok E c2 (pos w + 4) \<Longrightarrow>
           acks (new_events w (client_event E p w)) = [(sock c, mh_seqno (hdr pkt))] \<and>
           client_at (client_event E p w) p = None \<and>
           (g_caphandler w \<longrightarrow> (\<exists>e \<in> set (new_events w (client_event E p w)). is_success e))"
proof -
  let ?t = "e_time E (Suc (pos w))"
  let ?w2 = "set_client p (c\<lparr>last_msg := ?t\<rparr>)
                  (emit (EvTime ?t) (emit (EvRecv (sock c) (Inr (len, pkt))) w))"
  note d = client_event_dispatch [OF assms(1,3,4,5)]
  have at: "client_at ?w2 p = Some c2" using d(3) [of p] by (simp add: c2_def)
  show ce: "client_event E p w =
           handle_finish E p pkt
             (set_client p c2
                (emit (EvTime (e_time E (Suc (pos w))))
                   (emit (EvRecv (sock c) (Inr (len, pkt))) w)))"
    using d(1) assms(6)
    by (simp add: c2_def NETDUMP_KDH_def NETDUMP_VMCORE_def NETDUMP_FINISHED_def)
  assume fl: "flush_result E c2 (pos w + 2) = 0" and lk: "finish_links_ok E c2 (pos w + 4)"
  have z: "c2\<lparr>vmcorebufoff := 0\<rparr> = c2" "vmcorebufoff c2 = 0" "sock c2 = sock c"
    using assms(2) by (simp_all add: c2_def)
  have p2: "pos ?w2 = pos w + 2" by (rule d(4))
  have fl2: "flush_result E c2 (pos ?w2) = sint (vmcorebufoff c2)"
    using fl by (simp add: z(2) p2)
  note hf = handle_finish_flushed [OF at fl2, of pkt, unfolded z(1)]
  have e4: "pos ?w2 + 2 = pos w + 4" unfolding p2 by simp
  have lk2: "finish_links_ok E c2 (pos ?w2 + 2)" unfolding e4 by (rule lk)
  have tr: "trace (client_event E p w) =
          trace w @ [EvRecv (sock c) (Inr (len, pkt)), EvTime ?t] @
            flush_write c2 (sint (vmcorebufoff c2)) # EvFsync (corefd c2) #
             finish_link_events E c2 (pos ?w2 + 2) @
             finish_done_events E (g_caphandler ?w2) p c2 (mh_seqno (hdr pkt))
               (pos ?w2 + 2 + length (finish_link_events E c2 (pos ?w2 + 2)))"
    using hf(1) lk2 d(2) unfolding ce c2_def by simp
  have ne: "new_events w (client_event E p w) =
          [EvRecv (sock c) (Inr (len, pkt)), EvTime ?t] @
            flush_write c2 (sint (vmcorebufoff c2)) # EvFsync (corefd c2) #
             finish_link_events E c2 (pos ?w2 + 2) @
             finish_done_events E (g_caphandler ?w2) p c2 (mh_seqno (hdr pkt))
               (pos ?w2 + 2 + length (finish_link_events E c2 (pos ?w2 + 2)))"
    using tr by (rule new_events_append)
  have a: "acks (new_events w (client_event E p w)) = [(sock c, mh_seqno (hdr pkt))]"
    unfolding ne
    by (simp add: acks_append flush_write_def finish_link_events_facts(4)
          finish_done_events_facts(2) z(3))
  have g: "client_at (client_event E p w) p = None"
    using hf(2) [of p] lk2 unfolding ce c2_def by simp
  have s: "g_caphandler w \<longrightarrow> (\<exists>e \<in> set (new_events w (client_event E p w)). is_success e)"
    unfolding ne by (simp add: finish_done_events_def handler_events_def d(5))
  show "acks (new_events w (client_event E p w)) = [(sock c, mh_seqno (hdr pkt))] \<and>
           client_at (client_event E p w) p = None \<and>
           (g_caphandler w \<longrightarrow> (\<exists>e \<in> set (new_events w (client_event E p w)). is_success e))"
    using a g s by blast
qed


text \<open>
  C9, as the code has it. If, while \<open>handle_finish\<close> runs, an \<^verbatim>\<open>unlinkat\<close> of a \<^verbatim>\<open>.last\<close>
  link fails with an error other than \<^verbatim>\<open>ENOENT\<close> or a \<^verbatim>\<open>symlinkat\<close> fails, that call is
  the last thing \<open>handle_finish\<close> does: it sends no acknowledgement, does not invoke the
  handler, does not write \<open>Dump complete\<close>, and leaves the session on the list (flushed,
  otherwise as it was), together with every other session. The session is then served
  like every session on the list, not only timed out: when the FINISHED packet comes
  again, \<open>client_event\<close> stamps the session with the time of the packet and runs
  \<open>handle_finish\<close> on it once more, and if the write and the links work this time the
  packet is acknowledged, the handler is invoked with reason \<open>success\<close> and the session
  is destroyed.
\<close>

theorem finish_link_failure_keeps_session:
  fixes E w p pkt c
  defines "w' \<equiv> handle_finish E p pkt w"
  defines "c2 \<equiv> c\<lparr>vmcorebufoff := 0, last_msg := e_time E (Suc (pos w'))\<rparr>"
  assumes "client_at w p = Some c"
    and "\<exists>e \<in> set (new_events w w'). link_failure e"
  shows "link_failure (last (new_events w w')) \<and>
         (\<forall>e \<in> set (new_events w w').
             \<not> is_send e \<and> \<not> is_handler e \<and>
             e \<noteq> EvPinfo (infofile c) ''Dump complete\<newline>'') \<and>
         client_at w' p = Some (c\<lparr>vmcorebufoff := 0\<rparr>) \<and>
         (q \<noteq> p \<longrightarrow> client_at w' q = client_at w q) \<and>
         map fst (g_clients w') = map fst (g_clients w) \<and>
         fault w' = fault w \<and>
         (e_recv E (pos w') (sock c) = Inr (len, pkt2) \<and> HDR_SIZE E \<le> len \<and>
          len - HDR_SIZE E = unat (mh_len (hdr pkt2)) \<and> mh_type (hdr pkt2) = NETDUMP_FINISHED \<longrightarrow>
            client_event E p w' =
              handle_finish E p pkt2
                (set_client p c2
                   (emit (EvTime (e_time E (Suc (pos w'))))
                      (emit (EvRecv (sock c) (Inr (len, pkt2))) w'))) \<and>
            (flush_result E c2 (pos w' + 2) = 0 \<and> finish_links_ok E c2 (pos w' + 4) \<longrightarrow>
               acks (new_events w' (client_event E p w')) = [(sock c, mh_seqno (hdr pkt2))] \<and>
               client_at (client_event E p w') p = None \<and>
               (g_caphandler w \<longrightarrow>
                  (\<exists>e \<in> set (new_events w' (client_event E p w')). is_success e))))"
proof -
  note f = finish_link_failure_facts [OF assms(3) assms(4) [unfolded w'_def], folded w'_def]
  have at: "client_at w' p = Some (c\<lparr>vmcorebufoff := 0\<rparr>)" using f(3) [of p] by simp
  have gc: "g_caphandler w' = g_caphandler w" using f(6) by (simp add: same_globals_def)
  have retry: "client_event E p w' =
              handle_finish E p pkt2
                (set_client p c2
                   (emit (EvTime (e_time E (Suc (pos w'))))
                      (emit (EvRecv (sock c) (Inr (len, pkt2))) w'))) \<and>
            (flush_result E c2 (pos w' + 2) = 0 \<and> finish_links_ok E c2 (pos w' + 4) \<longrightarrow>
               acks (new_events w' (client_event E p w')) = [(sock c, mh_seqno (hdr pkt2))] \<and>
               client_at (client_event E p w') p = None \<and>
               (g_caphandler w \<longrightarrow>
                  (\<exists>e \<in> set (new_events w' (client_event E p w')). is_success e)))"
    if r: "e_recv E (pos w') (sock c) = Inr (len, pkt2) \<and> HDR_SIZE E \<le> len \<and>
          len - HDR_SIZE E = unat (mh_len (hdr pkt2)) \<and> mh_type (hdr pkt2) = NETDUMP_FINISHED"
  proof -
    have r': "e_recv E (pos w') (sock (c\<lparr>vmcorebufoff := 0\<rparr>)) = Inr (len, pkt2)"
      "HDR_SIZE E \<le> len" "len - HDR_SIZE E = unat (mh_len (hdr pkt2))"
      "mh_type (hdr pkt2) = NETDUMP_FINISHED" "vmcorebufoff (c\<lparr>vmcorebufoff := 0\<rparr>) = 0"
      using r by simp_all
    note k = client_event_finish_completes [OF at r'(5) r'(1-4), folded c2_def]
    show ?thesis
      using k(1) k(2) by (simp add: gc)
  qed
  have other: "q \<noteq> p \<longrightarrow> client_at w' q = client_at w q" using f(3) [of q] by simp
  from f(1) f(2) at other f(4) f(5) retry
  show ?thesis by blast
qed


lemma ex_fail_events:
  "new_events (ex_world [(8, ex_client)]) ex_w_fin_fail =
   [EvPwrite 6 [] 0 0 0, EvFsync 6,
    EvUnlinkat ''ok/vmcore.donor.last'' (Some ENOENT),
    EvSymlinkat ''ok/vmcore.donor.0'' ''ok/vmcore.donor.last'' (Some (EOTHER 13))]"
  unfolding ex_w_fin_fail_def
  by (simp only: handle_finish_events [OF ex_client_simps(1)])
     (simp add: flush_result_def flush_write_def
        finish_link_events_def finish_links_ok_def link_events_def link_ok_def
        vmcore_last_def info_last_def
        snprintf_def ex_env_fin_retry_def ex_env_def ex_client_def ex_world_def ex_fin_pkt_def
        pos_def)

lemma ex_fail_pos: "pos ex_w_fin_fail = 4"
proof -
  have "trace (ex_world [(8, ex_client)]) = []" by (simp add: ex_world_def)
  moreover have "\<exists>evs. trace ex_w_fin_fail = trace (ex_world [(8, ex_client)]) @ evs"
    unfolding ex_w_fin_fail_def
    using handle_finish_trace [OF ex_client_simps(1), of ex_env_fin_retry ex_fin_pkt] by blast
  ultimately have "trace ex_w_fin_fail = new_events (ex_world [(8, ex_client)]) ex_w_fin_fail"
    by (auto simp: new_events_def)
  then show ?thesis by (simp add: pos_def ex_fail_events)
qed

theorem finish_link_failure_keeps_session_witness:
  "client_at (ex_world [(8, ex_client)]) 8 = Some ex_client \<and>
   new_events (ex_world [(8, ex_client)]) ex_w_fin_fail =
     [EvPwrite 6 [] 0 0 0, EvFsync 6,
      EvUnlinkat ''ok/vmcore.donor.last'' (Some ENOENT),
      EvSymlinkat ''ok/vmcore.donor.0'' ''ok/vmcore.donor.last'' (Some (EOTHER 13))] \<and>
   client_at ex_w_fin_fail 8 = Some ex_client \<and>
   map fst (g_clients ex_w_fin_fail) = [8] \<and>
   e_recv ex_env_fin_retry (pos ex_w_fin_fail) (sock ex_client) = Inr (24, ex_fin_pkt) \<and>
   HDR_SIZE ex_env_fin_retry \<le> 24 \<and>
   24 - HDR_SIZE ex_env_fin_retry = unat (mh_len (hdr ex_fin_pkt)) \<and>
   mh_type (hdr ex_fin_pkt) = NETDUMP_FINISHED \<and>
   acks (new_events ex_w_fin_fail (client_event ex_env_fin_retry 8 ex_w_fin_fail)) = [(7, 5)] \<and>
   client_at (client_event ex_env_fin_retry 8 ex_w_fin_fail) 8 = None"
proof -
  let ?c2 = "ex_client\<lparr>vmcorebufoff := 0, last_msg := e_time ex_env_fin_retry (Suc (pos ex_w_fin_fail))\<rparr>"
  have lf: "\<exists>e \<in> set (new_events (ex_world [(8, ex_client)])
               (handle_finish ex_env_fin_retry 8 ex_fin_pkt (ex_world [(8, ex_client)]))).
              link_failure e"
    using ex_fail_events by (simp add: ex_w_fin_fail_def)
  have r: "e_recv ex_env_fin_retry (pos ex_w_fin_fail) (sock ex_client) = Inr (24, ex_fin_pkt)"
    "HDR_SIZE ex_env_fin_retry \<le> 24"
    "24 - HDR_SIZE ex_env_fin_retry = unat (mh_len (hdr ex_fin_pkt))"
    "mh_type (hdr ex_fin_pkt) = NETDUMP_FINISHED"
    by (simp_all add: ex_env_fin_retry_def ex_env_def ex_fin_pkt_def)
  have k: "flush_result ex_env_fin_retry ?c2 (pos ex_w_fin_fail + 2) = 0"
    "finish_links_ok ex_env_fin_retry ?c2 (pos ex_w_fin_fail + 4)"
    "sock ex_client = 7" "mh_seqno (hdr ex_fin_pkt) = 5"
    "ex_client\<lparr>vmcorebufoff := 0\<rparr> = ex_client"
    "map fst (g_clients (ex_world [(8, ex_client)])) = [8]"
    by (simp_all add: ex_fail_pos flush_result_def finish_links_ok_def link_ok_def link_events_def
          vmcore_last_def info_last_def snprintf_def ex_env_fin_retry_def ex_env_def
          ex_client_def ex_fin_pkt_def ex_world_def)
  note T = finish_link_failure_keeps_session [OF ex_client_simps(1) lf, where len = 24
      and ?pkt2.0 = ex_fin_pkt and q = 9, folded ex_w_fin_fail_def]
  from T r k(1,2)
  have t: "client_at ex_w_fin_fail 8 = Some (ex_client\<lparr>vmcorebufoff := 0\<rparr>)"
    "map fst (g_clients ex_w_fin_fail) = map fst (g_clients (ex_world [(8, ex_client)]))"
    "acks (new_events ex_w_fin_fail (client_event ex_env_fin_retry 8 ex_w_fin_fail)) =
       [(sock ex_client, mh_seqno (hdr ex_fin_pkt))]"
    "client_at (client_event ex_env_fin_retry 8 ex_w_fin_fail) 8 = None"
    by blast+
  show ?thesis
    using ex_client_simps(1) ex_fail_events t [unfolded k(3-6)] r
    by (intro conjI)
qed

text \<open>
  C9 as the specification has it fails in its last clause. The first FINISHED packet
  ends at a \<^verbatim>\<open>symlinkat\<close> that fails: no acknowledgement, the session stays, and its
  \<open>last_msg\<close> is now the time of that packet. The donor sends the packet again, the links
  work, and the session ends with \<open>Dump complete\<close>, the acknowledgement and the handler
  with reason \<open>success\<close>: the time-out is not all that the session is subject to.
\<close>

lemma ex_w_fin1_eq:
  "ex_w_fin1 =
     \<lparr>g_clients = [(8, ex_client\<lparr>last_msg := 1000\<rparr>)],
      g_now = 0, g_last_timeout_check = 0, g_caphandler = True, g_sock = 3,
      trace = [EvRecv 7 (Inr (24, ex_fin_pkt)), EvTime 1000, EvPwrite 6 [] 0 0 0, EvFsync 6,
               EvUnlinkat ''ok/vmcore.donor.last'' (Some ENOENT),
               EvSymlinkat ''ok/vmcore.donor.0'' ''ok/vmcore.donor.last'' (Some (EOTHER 13))],
      fault = None\<rparr>"
  by (simp add: ex_w_fin1_def Let_def client_event_def handle_finish_def vmcore_flush_def
        replace_last_def set_client_def emit_def pos_def client_at_def snprintf_def
        NETDUMP_KDH_def NETDUMP_VMCORE_def NETDUMP_FINISHED_def
        ex_world_def ex_env_fin_retry_def ex_env_def ex_client_def ex_fin_pkt_def)

lemma ex_w_fin2_eq:
  "ex_w_fin2 =
     \<lparr>g_clients = [],
      g_now = 0, g_last_timeout_check = 0, g_caphandler = True, g_sock = 3,
      trace = [EvRecv 7 (Inr (24, ex_fin_pkt)), EvTime 1000, EvPwrite 6 [] 0 0 0, EvFsync 6,
               EvUnlinkat ''ok/vmcore.donor.last'' (Some ENOENT),
               EvSymlinkat ''ok/vmcore.donor.0'' ''ok/vmcore.donor.last'' (Some (EOTHER 13)),
               EvRecv 7 (Inr (24, ex_fin_pkt)), EvTime 1000, EvPwrite 6 [] 0 0 0, EvFsync 6,
               EvUnlinkat ''ok/vmcore.donor.last'' (Some ENOENT),
               EvSymlinkat ''ok/vmcore.donor.0'' ''ok/vmcore.donor.last'' None,
               EvUnlinkat ''ok/info.donor.last'' (Some ENOENT),
               EvSymlinkat ''ok/info.donor.0'' ''ok/info.donor.last'' None,
               EvPinfo (Some 5) ''Dump complete\<newline>'', EvSend 7 5 True,
               EvHandler ''success'' 0x0A000002 ''donor'' ''ok/info.donor.0''
                 ''ok/vmcore.donor.0'' 0,
               EvKeventDel 7 True, EvFclose (Some 5), EvClose 6, EvClose 7, EvFree 8],
      fault = None\<rparr>"
  unfolding ex_w_fin2_def ex_w_fin1_eq
  by (simp add: Let_def client_event_def handle_finish_def vmcore_flush_def
        replace_last_def set_client_def send_ack_def exec_handler_def free_client_def
        emit_def pos_def client_at_def snprintf_def
        NETDUMP_KDH_def NETDUMP_VMCORE_def NETDUMP_FINISHED_def
        ex_env_fin_retry_def ex_env_def ex_client_def ex_fin_pkt_def)

theorem retransmitted_finish_completes:
  "trace ex_w_fin1 =
     [EvRecv 7 (Inr (24, ex_fin_pkt)), EvTime 1000, EvPwrite 6 [] 0 0 0, EvFsync 6,
      EvUnlinkat ''ok/vmcore.donor.last'' (Some ENOENT),
      EvSymlinkat ''ok/vmcore.donor.0'' ''ok/vmcore.donor.last'' (Some (EOTHER 13))] \<and>
   last_msg ex_client = 0 \<and>
   map_option last_msg (client_at ex_w_fin1 8) = Some 1000 \<and>
   new_events ex_w_fin1 ex_w_fin2 =
     [EvRecv 7 (Inr (24, ex_fin_pkt)), EvTime 1000, EvPwrite 6 [] 0 0 0, EvFsync 6,
      EvUnlinkat ''ok/vmcore.donor.last'' (Some ENOENT),
      EvSymlinkat ''ok/vmcore.donor.0'' ''ok/vmcore.donor.last'' None,
      EvUnlinkat ''ok/info.donor.last'' (Some ENOENT),
      EvSymlinkat ''ok/info.donor.0'' ''ok/info.donor.last'' None,
      EvPinfo (Some 5) ''Dump complete\<newline>'', EvSend 7 5 True,
      EvHandler ''success'' 0x0A000002 ''donor'' ''ok/info.donor.0'' ''ok/vmcore.donor.0'' 0,
      EvKeventDel 7 True, EvFclose (Some 5), EvClose 6, EvClose 7, EvFree 8] \<and>
   g_clients ex_w_fin2 = []"
  by (simp add: ex_w_fin2_eq new_events_def)
     (simp add: ex_w_fin1_eq client_at_def ex_client_def)


section \<open>The claim about file names\<close>

lemma dumpdir_step_mono: "\<not> is_unlinkat e \<Longrightarrow> fs \<subseteq> dumpdir_step fs e"
  by (cases "(fs, e)" rule: dumpdir_step.cases) auto

lemma dumpdir_after_snoc: "dumpdir_after (evs @ [e]) fs = dumpdir_step (dumpdir_after evs fs) e"
  by (simp add: dumpdir_after_def)

lemma dumpdir_after_keeps:
  "\<forall>e \<in> set evs. \<not> is_unlinkat e \<Longrightarrow> fs \<subseteq> dumpdir_after evs fs"
proof (induction evs rule: rev_induct)
  case Nil
  show ?case by (simp add: dumpdir_after_def)
next
  case (snoc e evs)
  then have "fs \<subseteq> dumpdir_after evs fs" "\<not> is_unlinkat e" by simp_all
  then show ?case
    using dumpdir_step_mono [of e "dumpdir_after evs fs"] by (auto simp: dumpdir_after_snoc)
qed

lemma dumpdir_after_created:
  "\<forall>e \<in> set evs. \<not> is_unlinkat e \<Longrightarrow> EvOpenat name fl (Inr fd) \<in> set evs \<Longrightarrow>
   O_CREAT \<in> set fl \<Longrightarrow> name \<in> dumpdir_after evs fs"
proof (induction evs rule: rev_induct)
  case Nil
  then show ?case by simp
next
  case (snoc e evs)
  have m: "dumpdir_after evs fs \<subseteq> dumpdir_step (dumpdir_after evs fs) e"
    using snoc.prems(1) by (simp add: dumpdir_step_mono)
  show ?case
  proof (cases "e = EvOpenat name fl (Inr fd)")
    case True
    then show ?thesis using snoc.prems(3) by (simp add: dumpdir_after_snoc)
  next
    case False
    then have "name \<in> dumpdir_after evs fs" using snoc by simp
    then show ?thesis using m by (auto simp: dumpdir_after_snoc)
  qed
qed

lemma failed_attempt_no_unlinkat:
  "failed_attempt i k evs \<Longrightarrow> \<forall>e \<in> set evs. \<not> is_unlinkat e"
  by (erule failed_attempt.cases) simp_all

lemma scan_result_no_unlinkat:
  assumes "scan_result E c i evs c'"
  shows "\<forall>e \<in> set evs. \<not> is_unlinkat e"
proof -
  from assms obtain k atts where len: "length atts = k - i"
    and fa: "\<forall>j < k - i. failed_attempt (info_name E c (i + j)) (core_name E c (i + j)) (atts ! j)"
    and e: "if k = MAX_DUMPS then evs = concat atts \<and> infofile c' = None \<and> corefd c' = - 1
         else \<exists>fd fd2.
                evs = concat atts @ good_attempt (info_name E c k) (core_name E c k) fd fd2 \<and>
                infofilename c' = info_name E c k \<and> corefilename c' = core_name E c k \<and>
                infofile c' = Some (int fd) \<and> corefd c' = int fd2"
    unfolding scan_result_def by blast
  have a: "\<forall>e \<in> set (concat atts). \<not> is_unlinkat e"
  proof
    fix e assume "e \<in> set (concat atts)"
    then obtain att where att: "att \<in> set atts" "e \<in> set att" by auto
    then obtain j where j: "j < length atts" "atts ! j = att" by (auto simp: in_set_conv_nth)
    with fa len have "failed_attempt (info_name E c (i + j)) (core_name E c (i + j)) att"
      by auto
    from failed_attempt_no_unlinkat [OF this] att(2) show "\<not> is_unlinkat e" by blast
  qed
  show ?thesis
  proof (cases "k = MAX_DUMPS")
    case True
    then show ?thesis using e a by simp
  next
    case False
    then obtain fd fd2 where
      "evs = concat atts @ good_attempt (info_name E c k) (core_name E c k) fd fd2"
      using e by auto
    then show ?thesis using a by (auto simp: good_attempt_def)
  qed
qed

text \<open>
  C7 does not hold of the code. For a client that holds no files yet, the loop of
  \<^verbatim>\<open>alloc_client\<close> does try the indices 0, 1, ... in this order, the info file first and
  the core file only when the info file was created, stops at the first index at which
  both were created, and fails when no index is left. But at an index at which the core
  file cannot be created, what it calls for the info file is \<^verbatim>\<open>unlink\<close>, not
  \<^verbatim>\<open>unlinkat\<close> on the dump directory: the scan contains no \<^verbatim>\<open>unlinkat\<close> at all, and every
  file that it created in the dump directory, also the info file of such an index, is
  still there when it ends.
\<close>

theorem alloc_scan_leaves_info_files:
  assumes "infofile c = None" and "corefd c = - 1"
  shows "scan_result E c 0 (new_events w (snd (alloc_files E c 0 w)))
           (fst (alloc_files E c 0 w)) \<and>
         (\<forall>e \<in> set (new_events w (snd (alloc_files E c 0 w))). \<not> is_unlinkat e) \<and>
         (EvOpenat name info_flags (Inr fd) \<in> set (new_events w (snd (alloc_files E c 0 w))) \<longrightarrow>
            name \<in> dumpdir_after (new_events w (snd (alloc_files E c 0 w))) fs) \<and>
         (infofile (fst (alloc_files E c 0 w)) = None \<longrightarrow>
            fst (alloc_finish E p c w) = None \<and>
            g_clients (snd (alloc_finish E p c w)) = g_clients w) \<and>
         (fst (alloc_finish E p c w) \<noteq> None \<longrightarrow>
            fst (alloc_finish E p c w) = Some p \<and>
            g_clients (snd (alloc_finish E p c w)) = (p, fst (alloc_files E c 0 w)) # g_clients w \<and>
            (\<exists>k < MAX_DUMPS.
               infofilename (fst (alloc_files E c 0 w)) = info_name E c k \<and>
               corefilename (fst (alloc_files E c 0 w)) = core_name E c k \<and>
               infofile (fst (alloc_files E c 0 w)) \<noteq> None \<and>
               corefd (fst (alloc_files E c 0 w)) \<noteq> - 1))"
proof -
  note f = alloc_scan_facts [OF assms, of E w p]
  then have sc: "scan_result E c 0 (new_events w (snd (alloc_files E c 0 w)))
           (fst (alloc_files E c 0 w))"
    by blast
  note nu = scan_result_no_unlinkat [OF sc]
  have "EvOpenat name info_flags (Inr fd) \<in> set (new_events w (snd (alloc_files E c 0 w))) \<longrightarrow>
            name \<in> dumpdir_after (new_events w (snd (alloc_files E c 0 w))) fs"
    using dumpdir_after_created [OF nu, of name info_flags fd fs] by (simp add: info_flags_def)
  with f nu show ?thesis by blast
qed

lemma ex_alloc_orphan:
  "alloc_files ex_env_core_exists ex_new_client 0 (ex_world []) =
     (ex_new_client\<lparr>infofilename := ''ok/info.donor.1'', corefilename := ''ok/vmcore.donor.1'',
                     infofile := Some 5, corefd := 7\<rparr>,
      (ex_world [])\<lparr>trace :=
         [EvOpenat ''ok/info.donor.0'' info_flags (Inr 0), EvFdopen 0 True,
          EvOpenat ''ok/vmcore.donor.0'' core_flags (Inl EEXIST),
          EvFclose (Some 0), EvUnlink ''ok/info.donor.0'',
          EvOpenat ''ok/info.donor.1'' info_flags (Inr 5), EvFdopen 5 True,
          EvOpenat ''ok/vmcore.donor.1'' core_flags (Inr 7)]\<rparr>)"
  by (simp add: alloc_files.simps Let_def info_name_def core_name_def snprintf_def dec.simps
        MAX_DUMPS_def ex_env_core_exists_def ex_env_def ex_new_client_def ex_world_def emit_def
        pos_def)

theorem alloc_scan_leaves_info_files_witness:
  "infofile ex_new_client = None \<and> corefd ex_new_client = - 1 \<and>
   new_events (ex_world []) (snd (alloc_files ex_env_core_exists ex_new_client 0 (ex_world []))) =
     [EvOpenat ''ok/info.donor.0'' info_flags (Inr 0), EvFdopen 0 True,
      EvOpenat ''ok/vmcore.donor.0'' core_flags (Inl EEXIST),
      EvFclose (Some 0), EvUnlink ''ok/info.donor.0'',
      EvOpenat ''ok/info.donor.1'' info_flags (Inr 5), EvFdopen 5 True,
      EvOpenat ''ok/vmcore.donor.1'' core_flags (Inr 7)] \<and>
   infofilename (fst (alloc_files ex_env_core_exists ex_new_client 0 (ex_world []))) =
     ''ok/info.donor.1'' \<and>
   corefilename (fst (alloc_files ex_env_core_exists ex_new_client 0 (ex_world []))) =
     ''ok/vmcore.donor.1'' \<and>
   ''ok/info.donor.0'' \<in>
     dumpdir_after
       (new_events (ex_world []) (snd (alloc_files ex_env_core_exists ex_new_client 0 (ex_world []))))
       {''ok/vmcore.donor.0''} \<and>
   dumpdir_after
     (new_events (ex_world []) (snd (alloc_files ex_env_core_exists ex_new_client 0 (ex_world []))))
     {''ok/vmcore.donor.0''} =
   {''ok/vmcore.donor.0'', ''ok/info.donor.0'', ''ok/info.donor.1'', ''ok/vmcore.donor.1''}"
proof -
  have h: "infofile ex_new_client = None" "corefd ex_new_client = - 1"
    by (simp_all add: ex_new_client_def)
  have ne: "new_events (ex_world [])
              (snd (alloc_files ex_env_core_exists ex_new_client 0 (ex_world []))) =
     [EvOpenat ''ok/info.donor.0'' info_flags (Inr 0), EvFdopen 0 True,
      EvOpenat ''ok/vmcore.donor.0'' core_flags (Inl EEXIST),
      EvFclose (Some 0), EvUnlink ''ok/info.donor.0'',
      EvOpenat ''ok/info.donor.1'' info_flags (Inr 5), EvFdopen 5 True,
      EvOpenat ''ok/vmcore.donor.1'' core_flags (Inr 7)]"
    by (simp add: ex_alloc_orphan new_events_def) (simp add: ex_world_def)
  have op: "EvOpenat ''ok/info.donor.0'' info_flags (Inr 0) \<in>
          set (new_events (ex_world [])
                 (snd (alloc_files ex_env_core_exists ex_new_client 0 (ex_world []))))"
    by (simp add: ne)
  from alloc_scan_leaves_info_files [OF h, where E = ex_env_core_exists and w = "ex_world []"
      and name = "''ok/info.donor.0''" and fd = 0 and fs = "{''ok/vmcore.donor.0''}"] op
  have m: "''ok/info.donor.0'' \<in>
     dumpdir_after
       (new_events (ex_world []) (snd (alloc_files ex_env_core_exists ex_new_client 0 (ex_world []))))
       {''ok/vmcore.donor.0''}"
    by blast
  have d: "dumpdir_after
     (new_events (ex_world []) (snd (alloc_files ex_env_core_exists ex_new_client 0 (ex_world []))))
     {''ok/vmcore.donor.0''} =
   {''ok/vmcore.donor.0'', ''ok/info.donor.0'', ''ok/info.donor.1'', ''ok/vmcore.donor.1''}"
    unfolding ne by (simp add: dumpdir_after_def info_flags_def core_flags_def) blast
  have n: "infofilename (fst (alloc_files ex_env_core_exists ex_new_client 0 (ex_world []))) =
     ''ok/info.donor.1''"
   "corefilename (fst (alloc_files ex_env_core_exists ex_new_client 0 (ex_world []))) =
     ''ok/vmcore.donor.1''"
    by (simp_all add: ex_alloc_orphan)
  show ?thesis using h ne n m d by (intro conjI)
qed

end
